theory Spec2Isabelle
  imports Main "HOL-Library.Word"
begin

unbundle bit_operations_syntax

section \<open>Data model of reconstruct.cpp\<close>

text \<open>
  The order book of \<^verbatim>\<open>reconstruct.cpp\<close> keeps resting orders by value in
  \<^verbatim>\<open>orders_\<close> (a \<^verbatim>\<open>std::unordered_map\<close>) and keeps, per side, a
  \<^verbatim>\<open>std::map\<close> from price to a vector of raw pointers
  \<^verbatim>\<open>const MboMessage*\<close>. What the program computes depends on what those
  pointers designate, so the embedding has an explicit notion of address:
  a pointer is either the address of a node of \<^verbatim>\<open>orders_\<close> or the address of
  an event object that lives in the caller of \<^verbatim>\<open>apply\<close>. Storage that the
  allocator has taken back may be handed out again, so the book also records where
  each node was placed and which storage is free. The members
  \<^verbatim>\<open>orders_\<close>, \<^verbatim>\<open>bids_\<close> and \<^verbatim>\<open>offers_\<close> are the fields \<open>orders\<close>,
  \<open>bids\<close> and \<open>offers\<close>, and the member \<^verbatim>\<open>size\<close> of a message is \<open>size'\<close>.
\<close>

type_synonym u8 = "8 word"
type_synonym u16 = "16 word"
type_synonym u32 = "32 word"
type_synonym u64 = "64 word"

text \<open>
  \<^verbatim>\<open>enum class Action : char\<close> and \<^verbatim>\<open>enum class Side : char\<close>. The parser
  casts any single character to the enumeration, so every character is a value of the
  type; the characters without an enumerator are kept as they are.
\<close>

datatype Action =
  Action_A | Action_M | Action_C | Action_R | Action_T | Action_F | Action_N
  | Action_other char

datatype Side = Side_B | Side_A | Side_N | Side_other char

text \<open>
  \<^verbatim>\<open>struct MboMessage\<close>. Prices are \<^verbatim>\<open>int64_t\<close>; the book only copies and
  compares them, so they are integers here. Sizes, flags and order ids are machine
  words: the size arithmetic of \<^verbatim>\<open>cancel\<close> and \<^verbatim>\<open>snapshot\<close> is unsigned
  32-bit arithmetic.
\<close>

record MboMessage =
  ts_recv :: string
  ts_event :: string
  rtype :: u8
  publisher_id :: u16
  instrument_id :: u32
  action :: Action
  side :: Side
  depth :: int
  price :: int
  size' :: u32
  flags :: u8
  ts_in_delta :: int
  sequence :: u32
  symbol :: string
  order_id :: u64

text \<open>\<^verbatim>\<open>struct PriceLevel { int64_t price; uint32_t size; uint32_t count; }\<close>\<close>

datatype PriceLevel = PriceLevel (level_price: int) (level_size: u32) (level_count: u32)

definition PRICE_UNDEF :: int where
  "PRICE_UNDEF = 9223372036854775807"

text \<open>
  Pointers. \<open>NodePtr k g\<close> is the pointer taken to the node that \<^verbatim>\<open>orders_\<close>
  allocated for key \<open>k\<close> as its \<open>g\<close>-th allocation: a node that is erased and a
  node that is emplaced later under the same key are different objects, although the
  later one may occupy the storage of the earlier one. \<open>EventPtr e\<close> is the pointer
  to the \<open>e\<close>-th event object of the caller (\<^verbatim>\<open>*opt\<close> in the loop of
  \<^verbatim>\<open>main\<close>), which is no heap node.
\<close>

datatype ptr = NodePtr u64 nat | EventPtr nat

text \<open>
  \<^verbatim>\<open>std::map<int64_t, std::vector<const MboMessage*>>\<close>: the entries in key order,
  which is the order the iterators of the map visit them in.
\<close>

type_synonym ladder = "(int \<times> ptr list) list"

text \<open>
  \<^verbatim>\<open>class OrderBook\<close>. \<open>orders\<close> maps a key to its node: the node's allocation
  number and the message stored in it. The other fields before the ladders describe
  the allocator of \<^verbatim>\<open>orders_\<close>, which the program uses and does not control:
  \<open>allocs\<close> counts the nodes allocated so far, \<open>node_address g\<close> is the storage
  address at which the \<open>g\<close>-th node was placed, \<open>free_store\<close> lists the addresses
  of erased nodes that no later node has taken, the most recently erased first, and
  \<open>reuse_choice g\<close> is the allocator's decision for the \<open>g\<close>-th node: the position
  in \<open>free_store\<close> of the storage to take, or \<open>None\<close> for storage never used
  before. Nothing is assumed about \<open>reuse_choice\<close>, so a statement about every book
  is a statement about every allocator.
\<close>

record OrderBook =
  orders :: "u64 \<Rightarrow> (nat \<times> MboMessage) option"
  allocs :: nat
  node_address :: "nat \<Rightarrow> nat"
  free_store :: "nat list"
  reuse_choice :: "nat \<Rightarrow> nat option"
  bids :: ladder
  offers :: ladder

text \<open>
  The book before the first event. Its allocator gives a new node the storage that
  was freed last, when there is any; \<open>empty_book\<lparr>reuse_choice := c\<rparr>\<close> is the
  empty book with any other allocator.
\<close>

definition empty_book :: OrderBook where
  "empty_book =
     \<lparr>orders = Map.empty, allocs = 0, node_address = (\<lambda>g. g), free_store = [],
      reuse_choice = (\<lambda>g. Some 0), bids = [], offers = []\<rparr>"

section \<open>Container operations\<close>

text \<open>The vector found under a key; a key that is absent has no members.\<close>

definition level_at :: "ladder \<Rightarrow> int \<Rightarrow> ptr list" where
  "level_at lvl p = (case map_of lvl p of None \<Rightarrow> [] | Some v \<Rightarrow> v)"

text \<open>
  \<^verbatim>\<open>lvl[p]\<close> followed by writes to the vector it returns: the entry for \<open>p\<close> is
  created in key order when it is absent, and holds \<open>v\<close> afterwards.
\<close>

fun set_level :: "int \<Rightarrow> ptr list \<Rightarrow> ladder \<Rightarrow> ladder" where
  "set_level p v [] = [(p, v)]"
| "set_level p v ((k, w) # rest) =
     (if p < k then (p, v) # (k, w) # rest
      else if p = k then (k, v) # rest
      else (k, w) # set_level p v rest)"

text \<open>\<^verbatim>\<open>lvl.erase(p)\<close>\<close>

definition erase_level :: "int \<Rightarrow> ladder \<Rightarrow> ladder" where
  "erase_level p lvl = filter (\<lambda>kv. fst kv \<noteq> p) lvl"

text \<open>
  The storage the allocator hands out for the next node, and the free storage left:
  the entry of \<open>free_store\<close> that \<open>reuse_choice\<close> names, or else an address that
  no node has had (the allocation number serves as that address).
\<close>

definition take_storage :: "OrderBook \<Rightarrow> nat \<times> nat list" where
  "take_storage b =
     (case reuse_choice b (allocs b) of
        None \<Rightarrow> (allocs b, free_store b)
      | Some i \<Rightarrow>
          if i < length (free_store b)
          then (free_store b ! i, take i (free_store b) @ drop (Suc i) (free_store b))
          else (allocs b, free_store b))"

text \<open>
  \<^verbatim>\<open>orders_.emplace(k, m)\<close>: a new node is allocated only when the key is absent;
  when the key is present the map is left as it is and \<open>m\<close> is not stored.
\<close>

definition emplace :: "u64 \<Rightarrow> MboMessage \<Rightarrow> OrderBook \<Rightarrow> OrderBook" where
  "emplace k m b =
     (case orders b k of
        None \<Rightarrow>
          b\<lparr>orders := (orders b)(k \<mapsto> (allocs b, m)), allocs := Suc (allocs b),
            node_address := (node_address b)(allocs b := fst (take_storage b)),
            free_store := snd (take_storage b)\<rparr>
      | Some n \<Rightarrow> b)"

text \<open>\<^verbatim>\<open>(s == Side::B ? bids_ : offers_)\<close>, read and written.\<close>

definition ladder :: "OrderBook \<Rightarrow> Side \<Rightarrow> ladder" where
  "ladder b s = (if s = Side_B then bids b else offers b)"

definition set_ladder :: "Side \<Rightarrow> ladder \<Rightarrow> OrderBook \<Rightarrow> OrderBook" where
  "set_ladder s l b = (if s = Side_B then b\<lparr>bids := l\<rparr> else b\<lparr>offers := l\<rparr>)"

text \<open>\<^verbatim>\<open>m.flags & (1u << 6)\<close>\<close>

definition is_tob :: "MboMessage \<Rightarrow> bool" where
  "is_tob m \<longleftrightarrow> (ucast (flags m) :: u32) AND push_bit 6 1 \<noteq> 0"

text \<open>
  \<^verbatim>\<open>vec.erase(std::remove(vec.begin(), vec.end(), &msg), vec.end())\<close> removes the
  members that compare equal to the address of the node \<^verbatim>\<open>msg\<close>, which is in
  \<^verbatim>\<open>orders_\<close> at that moment. \<open>live_node b q\<close> says that \<open>q\<close> points to a
  node that \<^verbatim>\<open>orders_\<close> holds. A member \<open>q\<close> compares equal to the address
  \<open>p\<close> of the node when it is that very pointer, or when it points to an erased node
  whose storage the node of \<open>p\<close> now occupies (the two were placed at the same
  address). A pointer to another node that \<^verbatim>\<open>orders_\<close> holds is different
  (two live objects), and so is a pointer to an event object (not a heap node).
\<close>

definition live_node :: "OrderBook \<Rightarrow> ptr \<Rightarrow> bool" where
  "live_node b q =
     (case q of
        EventPtr e \<Rightarrow> False
      | NodePtr k g \<Rightarrow>
          (case orders b k of
             None \<Rightarrow> False
           | Some (g', msg) \<Rightarrow> g' = g))"

definition same_address :: "OrderBook \<Rightarrow> ptr \<Rightarrow> ptr \<Rightarrow> bool" where
  "same_address b p q =
     (if q = p then True
      else if live_node b q then False
      else (case (p, q) of
              (NodePtr k g, NodePtr k' g') \<Rightarrow> node_address b g' = node_address b g
            | _ \<Rightarrow> False))"

definition remove_ptr :: "OrderBook \<Rightarrow> ptr \<Rightarrow> ptr list \<Rightarrow> ptr list" where
  "remove_ptr b p vec = filter (\<lambda>q. \<not> same_address b p q) vec"

section \<open>The order book\<close>

text \<open>
  \<^verbatim>\<open>OrderBook::clear\<close>. No pointer to a node is left in the book, so it makes
  no difference to anything the book does later which storage the cleared nodes had.
\<close>

definition clear :: "OrderBook \<Rightarrow> OrderBook" where
  "clear b = b\<lparr>orders := Map.empty, bids := [], offers := []\<rparr>"

text \<open>
  \<^verbatim>\<open>OrderBook::add(const MboMessage& m)\<close>. The parameter is a reference: \<open>e\<close> is the
  address of the caller's event object and \<open>m\<close> its value. With the flag set the
  ladder is cleared and the one vector created holds \<^verbatim>\<open>&m\<close>, the address of the
  caller's object. Otherwise \<^verbatim>\<open>orders_.at\<close> finds the node emplaced on the line
  before (or the node that was there already) and its address is appended to the vector
  at the price of the event.
\<close>

definition add :: "OrderBook \<Rightarrow> nat \<Rightarrow> MboMessage \<Rightarrow> OrderBook" where
  "add b e m =
     (if is_tob m then set_ladder (side m) (set_level (price m) [EventPtr e] []) b
      else
        let b1 = emplace (order_id m) m b in
        (case orders b1 (order_id m) of
           None \<Rightarrow> b1
         | Some (g, msg) \<Rightarrow>
             let lvl = ladder b1 (side m) in
             set_ladder (side m)
               (set_level (price m) (level_at lvl (price m) @ [NodePtr (order_id m) g]) lvl) b1))"

text \<open>
  \<^verbatim>\<open>OrderBook::cancel\<close>. The ladder is chosen by the side of the event. The vector
  at the stored price is created if absent, every member that compares equal to the
  node's address is removed from it, and the address is appended again when size is
  left; otherwise the node is erased and its storage is free. The last statement reads
  \<^verbatim>\<open>msg.price\<close> through the reference to the node; when the node has just been
  erased the model takes the price the node held.
\<close>

definition cancel :: "OrderBook \<Rightarrow> MboMessage \<Rightarrow> OrderBook" where
  "cancel b m =
     (case orders b (order_id m) of
        None \<Rightarrow> b
      | Some (g, msg) \<Rightarrow>
          let sz = (if size' msg > size' m then size' msg - size' m else 0);
              p = NodePtr (order_id m) g;
              lvl = ladder b (side m);
              vec = remove_ptr b p (level_at lvl (price msg));
              vec' = (if sz \<noteq> 0 then vec @ [p] else vec);
              orders' = (if sz \<noteq> 0 then (orders b)(order_id m \<mapsto> (g, msg\<lparr>size' := sz\<rparr>))
                         else (orders b)(order_id m := None));
              free' = (if sz \<noteq> 0 then free_store b else node_address b g # free_store b);
              lvl' = (if vec' = [] then erase_level (price msg) lvl
                      else set_level (price msg) vec' lvl)
          in set_ladder (side m) lvl' (b\<lparr>orders := orders', free_store := free'\<rparr>))"

text \<open>
  \<^verbatim>\<open>OrderBook::modify\<close>. An unknown id is handed to \<^verbatim>\<open>add\<close>. For a known id the
  ladder is chosen by the side stored in the node, before \<^verbatim>\<open>msg = m\<close> overwrites
  the node with every field of the event. The two \<^verbatim>\<open>std::remove\<close> calls compare
  addresses as the one of \<^verbatim>\<open>cancel\<close> does.
\<close>

definition modify :: "OrderBook \<Rightarrow> nat \<Rightarrow> MboMessage \<Rightarrow> OrderBook" where
  "modify b e m =
     (case orders b (order_id m) of
        None \<Rightarrow> add b e m
      | Some (g, msg) \<Rightarrow>
          let p = NodePtr (order_id m) g;
              lvl = ladder b (side msg);
              orders' = (orders b)(order_id m \<mapsto> (g, m));
              lvl' =
                (if price msg \<noteq> price m then
                   let vec = remove_ptr b p (level_at lvl (price msg));
                       lvl1 = (if vec = [] then erase_level (price msg) lvl
                               else set_level (price msg) vec lvl)
                   in set_level (price m) (level_at lvl1 (price m) @ [p]) lvl1
                 else if size' msg < size' m then
                   set_level (price msg) (remove_ptr b p (level_at lvl (price msg)) @ [p]) lvl
                 else lvl)
          in set_ladder (side msg) lvl' (b\<lparr>orders := orders'\<rparr>))"

text \<open>\<^verbatim>\<open>OrderBook::apply\<close>: the switch on the action, with its empty default.\<close>

definition apply_event :: "OrderBook \<Rightarrow> nat \<Rightarrow> MboMessage \<Rightarrow> OrderBook" where
  "apply_event b e m =
     (case action m of
        Action_R \<Rightarrow> clear b
      | Action_A \<Rightarrow> add b e m
      | Action_C \<Rightarrow> cancel b m
      | Action_M \<Rightarrow> modify b e m
      | _ \<Rightarrow> b)"

section \<open>Reading through the pointers\<close>

text \<open>
  \<^verbatim>\<open>snapshot\<close> reads \<^verbatim>\<open>p->flags\<close> and \<^verbatim>\<open>p->size\<close> through every pointer
  of the levels it visits. A pointer designates an object only while the object lives:
  a node while \<^verbatim>\<open>orders_\<close> holds it, an event object while the caller keeps it.
  \<open>ev\<close> gives the caller's live event objects, and \<open>deref\<close> is the object a
  pointer designates, if any.
\<close>

definition deref :: "(nat \<Rightarrow> MboMessage option) \<Rightarrow> OrderBook \<Rightarrow> ptr \<Rightarrow> MboMessage option" where
  "deref ev b p =
     (case p of
        EventPtr e \<Rightarrow> ev e
      | NodePtr k g \<Rightarrow>
          (case orders b k of
             None \<Rightarrow> None
           | Some (g', msg) \<Rightarrow> if g' = g then Some msg else None))"

text \<open>
  What a read through a pointer returns. For a pointer to a live object it is the
  object. For any other pointer C++ defines no result; the program still reads the
  storage the pointer names, and \<open>junk\<close> stands for whatever that storage holds at
  the time. Nothing is assumed about \<open>junk\<close>.
\<close>

definition load :: "(ptr \<Rightarrow> MboMessage) \<Rightarrow> (nat \<Rightarrow> MboMessage option) \<Rightarrow> OrderBook \<Rightarrow> ptr \<Rightarrow> MboMessage" where
  "load junk ev b p = (case deref ev b p of Some x \<Rightarrow> x | None \<Rightarrow> junk p)"

text \<open>
  The inner loop of \<^verbatim>\<open>fill\<close>: \<^verbatim>\<open>sz\<close> and \<^verbatim>\<open>ct\<close> are \<^verbatim>\<open>uint32_t\<close>
  accumulators, and a member whose flags carry bit 6 is skipped. \<open>mem\<close> is the read
  through a pointer.
\<close>

fun level_totals :: "(ptr \<Rightarrow> MboMessage) \<Rightarrow> ptr list \<Rightarrow> u32 \<Rightarrow> u32 \<Rightarrow> u32 \<times> u32" where
  "level_totals mem [] sz ct = (sz, ct)"
| "level_totals mem (p # ps) sz ct =
     (if is_tob (mem p) then level_totals mem ps sz ct
      else level_totals mem ps (sz + size' (mem p)) (ct + 1))"

text \<open>
  The outer loops of \<^verbatim>\<open>fill\<close> over the entries in iteration order: a row per
  level while \<^verbatim>\<open>cnt < depth\<close>, then padding rows up to \<^verbatim>\<open>depth\<close>
  (\<open>d\<close> is \<^verbatim>\<open>depth\<close>).
\<close>

fun fill_rows :: "(ptr \<Rightarrow> MboMessage) \<Rightarrow> ladder \<Rightarrow> nat \<Rightarrow> nat \<Rightarrow> PriceLevel list" where
  "fill_rows mem [] cnt d = replicate (d - cnt) (PriceLevel PRICE_UNDEF 0 0)"
| "fill_rows mem ((k, vec) # rest) cnt d =
     (if cnt < d then
        (let (sz, ct) = level_totals mem vec 0 0
         in PriceLevel k sz ct # fill_rows mem rest (Suc cnt) d)
      else replicate (d - cnt) (PriceLevel PRICE_UNDEF 0 0))"

text \<open>The lambda \<^verbatim>\<open>fill(lvl, rev)\<close>: reverse iterators for the bids.\<close>

definition fill :: "(ptr \<Rightarrow> MboMessage) \<Rightarrow> ladder \<Rightarrow> bool \<Rightarrow> nat \<Rightarrow> PriceLevel list" where
  "fill mem lvl rv d = fill_rows mem (if rv then rev lvl else lvl) 0 d"

text \<open>
  \<^verbatim>\<open>OrderBook::snapshot(depth) const\<close>: the rows of the bids, then the rows of the
  offers. The member function is \<^verbatim>\<open>const\<close> and returns rows only: the model has
  no book to return.
\<close>

definition snapshot :: "(ptr \<Rightarrow> MboMessage) \<Rightarrow> (nat \<Rightarrow> MboMessage option) \<Rightarrow> OrderBook \<Rightarrow> nat \<Rightarrow> PriceLevel list" where
  "snapshot junk ev b d =
     fill (load junk ev b) (bids b) True d @ fill (load junk ev b) (offers b) False d"

section \<open>The driver loop\<close>

text \<open>
  The loop of \<^verbatim>\<open>main\<close> over the input lines, each given by what
  \<^verbatim>\<open>MboMessage::parse\<close> returned for it. A line that does not parse is skipped.
  The event object \<^verbatim>\<open>*opt\<close> of line \<open>k\<close> lives for that iteration only, so the
  snapshot of line \<open>k\<close> is taken with event \<open>k\<close> as the only live event object;
  \<open>junk k\<close> is the content of dead storage during that iteration. The loop's output
  is, per accepted line, the event and the snapshot printed with it.
\<close>

fun main_loop :: "(nat \<Rightarrow> ptr \<Rightarrow> MboMessage) \<Rightarrow> OrderBook \<Rightarrow> nat \<Rightarrow> MboMessage option list \<Rightarrow> (MboMessage \<times> PriceLevel list) list" where
  "main_loop junk b k [] = []"
| "main_loop junk b k (None # ls) = main_loop junk b (Suc k) ls"
| "main_loop junk b k (Some m # ls) =
     (let b' = apply_event b k m
      in (m, snapshot (junk k) (Map.empty(k \<mapsto> m)) b' 10) # main_loop junk b' (Suc k) ls)"

section \<open>Price fields of the input and output records\<close>

text \<open>
  \<^verbatim>\<open>MboMessage::parse\<close>, the price field: an empty field is \<^verbatim>\<open>PRICE_UNDEF\<close>,
  any other field is \<^verbatim>\<open>static_cast<int64_t>(std::stold(field) * PRICE_SCALE)\<close>.
  Floating-point arithmetic is not modelled: \<open>scaled field\<close> stands for that
  truncated product, whatever it is.
\<close>

definition decode_price :: "(string \<Rightarrow> int) \<Rightarrow> string \<Rightarrow> int" where
  "decode_price scaled field = (if field = [] then PRICE_UNDEF else scaled field)"

text \<open>
  The price field that \<^verbatim>\<open>main\<close> writes for an event and for every snapshot row:
  \<^verbatim>\<open>(price == PRICE_UNDEF ? "" : std::to_string(price / PRICE_SCALE))\<close>.
  \<^verbatim>\<open>std::to_string(double)\<close> writes what \<^verbatim>\<open>printf("%f")\<close> writes: fixed
  notation with exactly six digits after the point. \<open>Fixed6 n\<close> is that text for
  \<open>n\<close> millionths, and \<open>printed p\<close> stands for the number of millionths written
  for the double \<^verbatim>\<open>p / PRICE_SCALE\<close>, whatever the division and the rounding give.
\<close>

datatype price_field = EmptyField | Fixed6 int

definition encode_price :: "(int \<Rightarrow> int) \<Rightarrow> int \<Rightarrow> price_field" where
  "encode_price printed p = (if p = PRICE_UNDEF then EmptyField else Fixed6 (printed p))"

text \<open>
  The written field denotes the price of \<open>k\<close> units of 1e-9: \<open>n\<close> millionths are
  \<open>1000 * n\<close> such units.
\<close>

definition denotes_nanos :: "price_field \<Rightarrow> int \<Rightarrow> bool" where
  "denotes_nanos f k \<longleftrightarrow> (case f of EmptyField \<Rightarrow> False | Fixed6 n \<Rightarrow> n * 1000 = k)"

section \<open>Sample events\<close>

text \<open>
  An event with the fields the book reads; the other fields are those of a
  value-initialised \<^verbatim>\<open>MboMessage\<close>.
\<close>

definition mk_event :: "Action \<Rightarrow> Side \<Rightarrow> int \<Rightarrow> u32 \<Rightarrow> u64 \<Rightarrow> u8 \<Rightarrow> MboMessage" where
  "mk_event a s p sz oid fl =
     \<lparr>ts_recv = [], ts_event = [], rtype = 0, publisher_id = 0, instrument_id = 0,
      action = a, side = s, depth = 0, price = p, size' = sz, flags = fl,
      ts_in_delta = 0, sequence = 0, symbol = [], order_id = oid\<rparr>"

text \<open>Price 100.5 and 101.0 at scale 1e9; order ids 1 and 9; flag byte 64 is bit 6.\<close>

definition add_bid_1 :: MboMessage where
  "add_bid_1 = mk_event Action_A Side_B 100500000000 10 1 0"

definition add_bid_1_again :: MboMessage where
  "add_bid_1_again = mk_event Action_A Side_B 101000000000 5 1 0"

definition cancel_1_ask :: MboMessage where
  "cancel_1_ask = mk_event Action_C Side_A 100500000000 10 1 0"

definition tob_bid :: MboMessage where
  "tob_bid = mk_event Action_A Side_B 100500000000 7 9 64"

definition trade_ev :: MboMessage where
  "trade_ev = mk_event Action_T Side_N 100500000000 1 0 0"

definition modify_tob_unknown :: MboMessage where
  "modify_tob_unknown = mk_event Action_M Side_B 100500000000 7 1 64"

definition add_ask_1 :: MboMessage where
  "add_ask_1 = mk_event Action_A Side_A 100500000000 10 1 0"

definition cancel_1_none :: MboMessage where
  "cancel_1_none = mk_event Action_C Side_N 100500000000 10 1 0"

definition cancel_1_ask_part :: MboMessage where
  "cancel_1_ask_part = mk_event Action_C Side_A 100500000000 3 1 0"

definition modify_1_tob :: MboMessage where
  "modify_1_tob = mk_event Action_M Side_B 100500000000 10 1 64"

definition add_ask_2 :: MboMessage where
  "add_ask_2 = mk_event Action_A Side_A 101000000000 4 2 0"

definition cancel_1_bid_part :: MboMessage where
  "cancel_1_bid_part = mk_event Action_C Side_B 100500000000 3 1 0"

definition modify_1_bid :: MboMessage where
  "modify_1_bid = mk_event Action_M Side_B 99000000000 12 1 0"

definition reset_ev :: MboMessage where
  "reset_ev = mk_event Action_R Side_N PRICE_UNDEF 0 0 0"

definition add_bid_2 :: MboMessage where
  "add_bid_2 = mk_event Action_A Side_B 100500000000 5 2 0"

definition cancel_1_bid_rest :: MboMessage where
  "cancel_1_bid_rest = mk_event Action_C Side_B PRICE_UNDEF 7 1 0"

definition cancel_1_bid_3 :: MboMessage where
  "cancel_1_bid_3 = mk_event Action_C Side_B PRICE_UNDEF 3 1 0"

definition modify_1_ask :: MboMessage where
  "modify_1_ask = mk_event Action_M Side_A 100500000000 10 1 0"

definition cancel_1_bid_all :: MboMessage where
  "cancel_1_bid_all = mk_event Action_C Side_B 100500000000 10 1 0"

definition modify_1_plain :: MboMessage where
  "modify_1_plain = mk_event Action_M Side_B 100500000000 10 1 0"

definition tob_bid_99 :: MboMessage where
  "tob_bid_99 = mk_event Action_A Side_B 99000000000 7 9 64"

definition add_ask_2_same :: MboMessage where
  "add_ask_2_same = mk_event Action_A Side_A 100500000000 4 2 0"

definition cancel_2_bid_part :: MboMessage where
  "cancel_2_bid_part = mk_event Action_C Side_B 100500000000 2 2 0"

definition modify_2_bid_99 :: MboMessage where
  "modify_2_bid_99 = mk_event Action_M Side_B 99000000000 5 2 0"

section \<open>Notions used in the statements\<close>

text \<open>
  The row the specification describes for one level: its price, the sum of the sizes
  of its members that do not carry the flag, and their number (both as 32-bit values).
\<close>

definition aggregate_row :: "(ptr \<Rightarrow> MboMessage) \<Rightarrow> int \<times> ptr list \<Rightarrow> PriceLevel" where
  "aggregate_row mem kv =
     PriceLevel (fst kv)
       (sum_list (map (\<lambda>p. size' (mem p)) (filter (\<lambda>p. \<not> is_tob (mem p)) (snd kv))))
       (of_nat (length (filter (\<lambda>p. \<not> is_tob (mem p)) (snd kv))))"

text \<open>The keys of both \<^verbatim>\<open>std::map\<close>s are in strictly ascending order.\<close>

definition sorted_book :: "OrderBook \<Rightarrow> bool" where
  "sorted_book b \<longleftrightarrow> sorted_wrt (<) (map fst (bids b)) \<and> sorted_wrt (<) (map fst (offers b))"

text \<open>The members of the level at price \<open>q\<close> in the ladder that side \<open>s\<close> selects.\<close>

definition lev :: "OrderBook \<Rightarrow> Side \<Rightarrow> int \<Rightarrow> ptr list" where
  "lev b s q = level_at (ladder b s) q"

text \<open>
  The consistency of registry and ladders that the specification states as an
  invariant, in three parts. Every reference of a ladder is the address of the node of
  a registered order:
\<close>

definition refs_registered :: "OrderBook \<Rightarrow> bool" where
  "refs_registered b \<longleftrightarrow>
     (\<forall>s q p. p \<in> set (lev b s q) \<longrightarrow> (\<exists>k g msg. p = NodePtr k g \<and> orders b k = Some (g, msg)))"

text \<open>
  The node of a registered order is referenced from the level at the order's stored
  price in the ladder its stored side selects, and from no other level:
\<close>

definition placed :: "OrderBook \<Rightarrow> bool" where
  "placed b \<longleftrightarrow>
     (\<forall>k g msg s q. orders b k = Some (g, msg) \<longrightarrow>
        (NodePtr k g \<in> set (lev b s q) \<longleftrightarrow> (s = Side_B) = (side msg = Side_B) \<and> q = price msg))"

text \<open>and it occurs there exactly once:\<close>

definition once :: "OrderBook \<Rightarrow> bool" where
  "once b \<longleftrightarrow>
     (\<forall>k g msg. orders b k = Some (g, msg) \<longrightarrow>
        count_list (lev b (side msg) (price msg)) (NodePtr k g) = 1)"

text \<open>Together with the key order of the two maps:\<close>

definition consistent :: "OrderBook \<Rightarrow> bool" where
  "consistent b \<longleftrightarrow> sorted_book b \<and> refs_registered b \<and> placed b \<and> once b"

text \<open>
  The events under which the consistency is kept. Excluded are: an Add (or a Modify
  of an unregistered id) with the top-of-book flag; an Add whose id is registered
  already; a Cancel or Modify of a registered id whose side selects the other ladder
  than the side stored in the order.
\<close>

definition admissible :: "OrderBook \<Rightarrow> MboMessage \<Rightarrow> bool" where
  "admissible b m \<longleftrightarrow>
     (case action m of
        Action_A \<Rightarrow> \<not> is_tob m \<and> orders b (order_id m) = None
      | Action_M \<Rightarrow>
          (case orders b (order_id m) of
             None \<Rightarrow> \<not> is_tob m
           | Some (g, msg) \<Rightarrow> (side m = Side_B) = (side msg = Side_B))
      | Action_C \<Rightarrow>
          (case orders b (order_id m) of
             None \<Rightarrow> True
           | Some (g, msg) \<Rightarrow> (side m = Side_B) = (side msg = Side_B))
      | _ \<Rightarrow> True)"

text \<open>
  A stream of events applied in order, event \<open>k\<close>, \<open>k + 1\<close>, ... of the caller,
  and the streams all of whose events are admissible in the book they meet.
\<close>

fun apply_all :: "OrderBook \<Rightarrow> nat \<Rightarrow> MboMessage list \<Rightarrow> OrderBook" where
  "apply_all b k [] = b"
| "apply_all b k (m # ms) = apply_all (apply_event b k m) (Suc k) ms"

fun admissible_all :: "OrderBook \<Rightarrow> nat \<Rightarrow> MboMessage list \<Rightarrow> bool" where
  "admissible_all b k [] = True"
| "admissible_all b k (m # ms) = (admissible b m \<and> admissible_all (apply_event b k m) (Suc k) ms)"

text \<open>
  Where a pointer belongs: for the node of a registered order, the ladder and the
  price stored in the order; for any other pointer, nowhere.
\<close>

definition home :: "OrderBook \<Rightarrow> ptr \<Rightarrow> (bool \<times> int) option" where
  "home b p =
     (case p of
        EventPtr e \<Rightarrow> None
      | NodePtr k g \<Rightarrow>
          (case orders b k of
             None \<Rightarrow> None
           | Some (g', msg) \<Rightarrow> if g' = g then Some (side msg = Side_B, price msg) else None))"

text \<open>
  The consistency as one equation: a pointer occurs once in the level where it belongs
  and in no other level.
\<close>

definition counts_ok :: "OrderBook \<Rightarrow> bool" where
  "counts_ok b \<longleftrightarrow>
     (\<forall>s q p. count_list (lev b s q) p = (if home b p = Some (s = Side_B, q) then 1 else 0))"

text \<open>
  The levels of the side \<open>s\<close> that a snapshot of depth \<open>d\<close> reports, in the
  order it visits them.
\<close>

definition visited :: "OrderBook \<Rightarrow> Side \<Rightarrow> nat \<Rightarrow> ladder" where
  "visited b s d = take d (if s = Side_B then rev (bids b) else offers b)"

text \<open>The book with every copy of the pointer \<open>p\<close> taken out of every level.\<close>

definition without_ref :: "ptr \<Rightarrow> OrderBook \<Rightarrow> OrderBook" where
  "without_ref p b =
     b\<lparr>bids := map (\<lambda>kv. (fst kv, removeAll p (snd kv))) (bids b),
       offers := map (\<lambda>kv. (fst kv, removeAll p (snd kv))) (offers b)\<rparr>"

text \<open>
  The events that can write the flags stored under order id \<open>k\<close>: a Modify of the id
  overwrites the node, an Add of the id creates a node when there is none.
\<close>

definition writes_id :: "u64 \<Rightarrow> MboMessage \<Rightarrow> bool" where
  "writes_id k m \<longleftrightarrow> order_id m = k \<and> (action m = Action_A \<or> action m = Action_M)"

section \<open>Facts about the containers\<close>

lemmas book_defs = mk_event_def empty_book_def apply_event_def add_def cancel_def modify_def
  clear_def emplace_def ladder_def set_ladder_def level_at_def erase_level_def is_tob_def Let_def
  remove_ptr_def same_address_def live_node_def take_storage_def

lemmas snap_defs = snapshot_def fill_def load_def deref_def

lemma map_of_set_level: "map_of (set_level p v lvl) = (map_of lvl)(p \<mapsto> v)"
  by (induction lvl) (auto simp: fun_upd_twist)

lemma level_at_set_level:
  "level_at (set_level p v lvl) q = (if q = p then v else level_at lvl q)"
  by (simp add: level_at_def map_of_set_level)

lemma map_of_erase_level: "map_of (erase_level p lvl) = (map_of lvl)(p := None)"
  by (induction lvl) (auto simp: erase_level_def)

lemma level_at_erase_level:
  "level_at (erase_level p lvl) q = (if q = p then [] else level_at lvl q)"
  by (simp add: level_at_def map_of_erase_level)

lemma ladder_set_ladder:
  "ladder (set_ladder s l b) t = (if (t = Side_B) = (s = Side_B) then l else ladder b t)"
  by (auto simp: ladder_def set_ladder_def)

lemma orders_set_ladder [simp]: "orders (set_ladder s l b) = orders b"
  by (simp add: set_ladder_def)

lemma allocs_set_ladder [simp]: "allocs (set_ladder s l b) = allocs b"
  by (simp add: set_ladder_def)

lemma ladder_orders_update [simp]: "ladder (b\<lparr>orders := x\<rparr>) s = ladder b s"
  by (simp add: ladder_def)

lemma ladder_free_store_update [simp]: "ladder (b\<lparr>free_store := x\<rparr>) s = ladder b s"
  by (simp add: ladder_def)

section \<open>Top-of-book replacement\<close>

lemma add_tob:
  "is_tob m \<Longrightarrow> add b e m = set_ladder (side m) [(price m, [EventPtr e])] b"
  by (simp add: add_def)

lemma fill_single_tob:
  assumes "is_tob (mem (EventPtr e))"
  shows "fill mem [(p, [EventPtr e])] rv (Suc n) =
           PriceLevel p 0 0 # replicate n (PriceLevel PRICE_UNDEF 0 0)"
  using assms by (simp add: fill_def)

text \<open>
  C6. An Add event with the top-of-book flag leaves the registry as it is, replaces the
  whole ladder of its side by one level at the event's price and leaves the other
  ladder alone. In the snapshot taken while the event object is still live, that side
  reports the row (event price, 0, 0) followed by padding, whatever the size field of
  the event is; the other side's rows are those of its unchanged ladder.
\<close>

theorem tob_add_replaces_side:
  assumes "action m = Action_A" and "is_tob m"
  shows "orders (apply_event b e m) = orders b \<and>
         allocs (apply_event b e m) = allocs b \<and>
         ladder (apply_event b e m) (side m) = [(price m, [EventPtr e])] \<and>
         (if side m = Side_B then offers (apply_event b e m) = offers b
          else bids (apply_event b e m) = bids b) \<and>
         snapshot junk (ev(e \<mapsto> m)) (apply_event b e m) (Suc n) =
           (if side m = Side_B then
              (PriceLevel (price m) 0 0 # replicate n (PriceLevel PRICE_UNDEF 0 0))
              @ fill (load junk (ev(e \<mapsto> m)) (apply_event b e m)) (offers b) False (Suc n)
            else
              fill (load junk (ev(e \<mapsto> m)) (apply_event b e m)) (bids b) True (Suc n)
              @ (PriceLevel (price m) 0 0 # replicate n (PriceLevel PRICE_UNDEF 0 0)))"
proof -
  let ?b = "apply_event b e m"
  let ?mem = "load junk (ev(e \<mapsto> m)) ?b"
  have b': "?b = set_ladder (side m) [(price m, [EventPtr e])] b"
    using assms by (simp add: apply_event_def add_tob)
  have lad: "ladder ?b (side m) = [(price m, [EventPtr e])]"
    by (simp add: b' ladder_set_ladder)
  have "?mem (EventPtr e) = m"
    by (simp add: load_def deref_def)
  then have "is_tob (?mem (EventPtr e))"
    using assms(2) by simp
  then have row: "fill ?mem [(price m, [EventPtr e])] rv (Suc n) =
      PriceLevel (price m) 0 0 # replicate n (PriceLevel PRICE_UNDEF 0 0)" for rv
    by (rule fill_single_tob)
  have other: "if side m = Side_B then offers ?b = offers b else bids ?b = bids b"
    by (simp add: b' set_ladder_def)
  have snap: "snapshot junk (ev(e \<mapsto> m)) ?b (Suc n) =
           (if side m = Side_B then
              (PriceLevel (price m) 0 0 # replicate n (PriceLevel PRICE_UNDEF 0 0))
              @ fill ?mem (offers b) False (Suc n)
            else
              fill ?mem (bids b) True (Suc n)
              @ (PriceLevel (price m) 0 0 # replicate n (PriceLevel PRICE_UNDEF 0 0)))"
  proof (cases "side m = Side_B")
    case True
    then have "bids ?b = [(price m, [EventPtr e])]" and "offers ?b = offers b"
      using lad other by (simp_all add: ladder_def)
    then show ?thesis
      using True by (simp add: snapshot_def row)
  next
    case False
    then have "offers ?b = [(price m, [EventPtr e])]" and "bids ?b = bids b"
      using lad other by (simp_all add: ladder_def)
    then show ?thesis
      using False by (simp add: snapshot_def row)
  qed
  show ?thesis
    using lad other snap by (simp add: b')
qed

theorem tob_add_replaces_side_witness:
  "action tob_bid = Action_A \<and> is_tob tob_bid \<and>
   orders (apply_event (apply_event empty_book 0 add_bid_1) 1 tob_bid) =
     orders (apply_event empty_book 0 add_bid_1) \<and>
   ladder (apply_event (apply_event empty_book 0 add_bid_1) 1 tob_bid) (side tob_bid) =
     [(price tob_bid, [EventPtr 1])]"
proof -
  have h1: "action tob_bid = Action_A"
    by (simp add: tob_bid_def mk_event_def)
  have h2: "is_tob tob_bid"
    by (simp add: tob_bid_def mk_event_def is_tob_def)
  from tob_add_replaces_side [OF h1 h2, where b = "apply_event empty_book 0 add_bid_1"
      and e = 1 and ev = Map.empty and n = 1]
  show ?thesis
    using h1 h2 by blast
qed

text \<open>
  C1 (the code at a failing input). The level installed by a flagged Add holds the
  address of the caller's event object. In the loop of \<^verbatim>\<open>main\<close> that object is gone
  when the next line is read: at the snapshot printed with the next accepted line the
  pointer designates no object, and the row of the level is computed from whatever the
  dead storage holds.
\<close>

theorem tob_level_dangles_after_event:
  "bids (apply_event (apply_event empty_book 0 tob_bid) 1 trade_ev) = [(100500000000, [EventPtr 0])] \<and>
   deref (Map.empty(1 \<mapsto> trade_ev)) (apply_event (apply_event empty_book 0 tob_bid) 1 trade_ev)
     (EventPtr 0) = None \<and>
   map snd (main_loop junk empty_book 0 [Some tob_bid, Some trade_ev]) =
     [PriceLevel 100500000000 0 0 # replicate 19 (PriceLevel PRICE_UNDEF 0 0),
      (if is_tob (junk 1 (EventPtr 0)) then PriceLevel 100500000000 0 0
       else PriceLevel 100500000000 (size' (junk 1 (EventPtr 0))) 1)
        # replicate 19 (PriceLevel PRICE_UNDEF 0 0)]"
  by (simp add: tob_bid_def trade_ev_def book_defs snap_defs replicate_add [symmetric])

section \<open>Add with an id that is already registered\<close>

text \<open>
  C2 (the code at a failing input). \<^verbatim>\<open>emplace\<close> does not overwrite: after two Adds
  with order id 1 the registry still holds the first event, and the one node is
  referenced from the level of its own price and from the level of the second event's
  price. The snapshot shows the first event's size at both prices.
\<close>

theorem add_known_id_keeps_first:
  "orders (apply_event (apply_event empty_book 0 add_bid_1) 1 add_bid_1_again) 1 = Some (0, add_bid_1) \<and>
   bids (apply_event (apply_event empty_book 0 add_bid_1) 1 add_bid_1_again) =
     [(100500000000, [NodePtr 1 0]), (101000000000, [NodePtr 1 0])] \<and>
   snapshot junk Map.empty (apply_event (apply_event empty_book 0 add_bid_1) 1 add_bid_1_again) 2 =
     [PriceLevel 101000000000 10 1, PriceLevel 100500000000 10 1,
      PriceLevel PRICE_UNDEF 0 0, PriceLevel PRICE_UNDEF 0 0]"
  by (simp add: add_bid_1_def add_bid_1_again_def book_defs snap_defs numeral_eq_Suc)

section \<open>Modify of an unknown id\<close>

text \<open>
  C4, as amended. A Modify whose order id is not registered does what \<^verbatim>\<open>add\<close> does
  with that very event, flag bits included: both ladders and the allocation count are
  those an Add event with the same fields produces, and the registry differs from that
  Add's only in the action character of the stored copy. Without the flag the event is
  registered as a new order; with the flag the registry is left alone (and \<^verbatim>\<open>add\<close>
  replaces the side's ladder).
\<close>

theorem modify_unknown_is_add:
  assumes "action m = Action_M" and "orders b (order_id m) = None"
  shows "apply_event b e m = add b e m \<and>
         bids (apply_event b e m) = bids (apply_event b e (m\<lparr>action := Action_A\<rparr>)) \<and>
         offers (apply_event b e m) = offers (apply_event b e (m\<lparr>action := Action_A\<rparr>)) \<and>
         allocs (apply_event b e m) = allocs (apply_event b e (m\<lparr>action := Action_A\<rparr>)) \<and>
         orders (apply_event b e m) =
           (if is_tob m then orders b else (orders b)(order_id m \<mapsto> (allocs b, m))) \<and>
         orders (apply_event b e (m\<lparr>action := Action_A\<rparr>)) =
           (if is_tob m then orders b
            else (orders b)(order_id m \<mapsto> (allocs b, m\<lparr>action := Action_A\<rparr>)))"
  using assms
  by (simp add: apply_event_def modify_def add_def emplace_def is_tob_def Let_def
      set_ladder_def ladder_def)

theorem modify_unknown_is_add_witness:
  "action modify_tob_unknown = Action_M \<and>
   orders empty_book (order_id modify_tob_unknown) = None \<and>
   apply_event empty_book 0 modify_tob_unknown = add empty_book 0 modify_tob_unknown \<and>
   bids (apply_event empty_book 0 modify_tob_unknown) =
     bids (apply_event empty_book 0 (modify_tob_unknown\<lparr>action := Action_A\<rparr>))"
proof -
  have h1: "action modify_tob_unknown = Action_M"
    by (simp add: modify_tob_unknown_def mk_event_def)
  have h2: "orders empty_book (order_id modify_tob_unknown) = None"
    by (simp add: empty_book_def)
  from modify_unknown_is_add [OF h1 h2, where e = 0]
  show ?thesis
    using h1 h2 by blast
qed

text \<open>
  C4 as stated fails: a flagged Modify of an unknown id does not produce the book of
  the Add with the same fields and the flag cleared. The Modify installs a synthetic
  level and registers nothing; that Add registers order 1.
\<close>

theorem modify_unknown_not_plain_add:
  "action modify_tob_unknown = Action_M \<and>
   orders empty_book (order_id modify_tob_unknown) = None \<and>
   apply_event empty_book 0 modify_tob_unknown \<noteq>
     apply_event empty_book 0
       (modify_tob_unknown\<lparr>action := Action_A, flags := flags modify_tob_unknown AND NOT 64\<rparr>) \<and>
   orders (apply_event empty_book 0 modify_tob_unknown) 1 = None \<and>
   orders (apply_event empty_book 0
       (modify_tob_unknown\<lparr>action := Action_A, flags := flags modify_tob_unknown AND NOT 64\<rparr>)) 1 \<noteq> None"
  by (simp add: modify_tob_unknown_def book_defs)

section \<open>Cancel\<close>

text \<open>
  C5 (the code at a failing input). Order 1 rests on the bid side; a Cancel for its
  whole size that carries side Ask erases the order from the registry but searches the
  offers, so the bid level keeps the address of the erased node: the level is still
  reported by the next snapshot, with totals read from the erased node's storage.
\<close>

theorem cancel_other_side_leaves_reference:
  "orders (apply_event (apply_event empty_book 0 add_bid_1) 1 cancel_1_ask) 1 = None \<and>
   bids (apply_event (apply_event empty_book 0 add_bid_1) 1 cancel_1_ask) =
     [(100500000000, [NodePtr 1 0])] \<and>
   deref ev (apply_event (apply_event empty_book 0 add_bid_1) 1 cancel_1_ask) (NodePtr 1 0) = None \<and>
   take 1 (snapshot junk ev (apply_event (apply_event empty_book 0 add_bid_1) 1 cancel_1_ask) 10) =
     [if is_tob (junk (NodePtr 1 0)) then PriceLevel 100500000000 0 0
      else PriceLevel 100500000000 (size' (junk (NodePtr 1 0))) 1]"
  by (simp add: add_bid_1_def cancel_1_ask_def book_defs snap_defs)

section \<open>Cancel with the side of the event\<close>

lemma remove_ptr_live:
  assumes "\<forall>q\<in>set vec. live_node b q"
  shows "remove_ptr b p vec = removeAll p vec"
proof -
  have "filter (\<lambda>q. \<not> same_address b p q) vec = filter (\<lambda>q. p \<noteq> q) vec"
    using assms by (intro filter_cong) (auto simp: same_address_def)
  then show ?thesis
    by (simp add: remove_ptr_def removeAll_filter_not_eq)
qed

lemma deref_node:
  "orders b k = Some (g, x) \<Longrightarrow> deref ev b (NodePtr k g) = Some x"
  by (simp add: deref_def)

lemma load_node:
  "orders b k = Some (g, x) \<Longrightarrow> load junk ev b (NodePtr k g) = x"
  by (simp add: load_def deref_node)

text \<open>
  C9, as amended. \<^verbatim>\<open>cancel\<close> chooses the ladder by the side of the Cancel event.
  Take a registered order that is referenced from the level at its stored price in the
  ladder of its stored side, and a Cancel of its id whose side selects the other ladder
  (exactly one of the two sides is Bid). The ladder of the stored side is left as it
  is, and the reference is still in its level. If size is left, the order is stored
  with the reduced size, and in the ladder the event chose the level at the stored price
  ends with a new reference to the order. If not, the order is erased from the registry,
  so the reference left behind points to no object, and nothing is appended.
\<close>

theorem cancel_uses_event_side:
  assumes "action m = Action_C"
    and "orders b (order_id m) = Some (g, msg)"
    and "(side m = Side_B) \<noteq> (side msg = Side_B)"
    and "NodePtr (order_id m) g \<in> set (lev b (side msg) (price msg))"
  shows "ladder (apply_event b e m) (side msg) = ladder b (side msg) \<and>
         NodePtr (order_id m) g \<in> set (lev (apply_event b e m) (side msg) (price msg)) \<and>
         (if size' m < size' msg then
            orders (apply_event b e m) =
              (orders b)(order_id m \<mapsto> (g, msg\<lparr>size' := size' msg - size' m\<rparr>)) \<and>
            lev (apply_event b e m) (side m) (price msg) =
              remove_ptr b (NodePtr (order_id m) g) (lev b (side m) (price msg))
                @ [NodePtr (order_id m) g]
          else
            orders (apply_event b e m) = (orders b)(order_id m := None) \<and>
            deref ev (apply_event b e m) (NodePtr (order_id m) g) = None \<and>
            lev (apply_event b e m) (side m) (price msg) =
              remove_ptr b (NodePtr (order_id m) g) (lev b (side m) (price msg)))"
proof -
  let ?p = "NodePtr (order_id m) g"
  let ?vec = "remove_ptr b ?p (level_at (ladder b (side m)) (price msg))"
  have ap: "apply_event b e m = cancel b m"
    using assms(1) by (simp add: apply_event_def)
  show ?thesis
  proof (cases "size' m < size' msg")
    case True
    then have nz: "size' msg - size' m \<noteq> 0" by auto
    have c: "cancel b m =
        set_ladder (side m) (set_level (price msg) (?vec @ [?p]) (ladder b (side m)))
          (b\<lparr>orders := (orders b)(order_id m \<mapsto> (g, msg\<lparr>size' := size' msg - size' m\<rparr>)),
             free_store := free_store b\<rparr>)"
      using assms(2) True nz by (simp add: cancel_def Let_def)
    show ?thesis
      using True assms(3,4) by (simp add: ap c lev_def ladder_set_ladder level_at_set_level)
  next
    case False
    have c: "cancel b m =
        set_ladder (side m)
          (if ?vec = [] then erase_level (price msg) (ladder b (side m))
           else set_level (price msg) ?vec (ladder b (side m)))
          (b\<lparr>orders := (orders b)(order_id m := None),
             free_store := node_address b g # free_store b\<rparr>)"
      using assms(2) False by (simp add: cancel_def Let_def)
    have d: "deref ev (cancel b m) ?p = None"
      by (simp add: c deref_def)
    show ?thesis
      using False assms(3,4) d
      by (simp add: ap c lev_def ladder_set_ladder level_at_set_level level_at_erase_level)
  qed
qed

theorem cancel_uses_event_side_witness:
  "action cancel_1_ask_part = Action_C \<and>
   orders (apply_event empty_book 0 add_bid_1) (order_id cancel_1_ask_part) = Some (0, add_bid_1) \<and>
   (side cancel_1_ask_part = Side_B) \<noteq> (side add_bid_1 = Side_B) \<and>
   NodePtr (order_id cancel_1_ask_part) 0 \<in>
     set (lev (apply_event empty_book 0 add_bid_1) (side add_bid_1) (price add_bid_1)) \<and>
   ladder (apply_event (apply_event empty_book 0 add_bid_1) 1 cancel_1_ask_part) (side add_bid_1) =
     ladder (apply_event empty_book 0 add_bid_1) (side add_bid_1) \<and>
   NodePtr (order_id cancel_1_ask_part) 0 \<in>
     set (lev (apply_event (apply_event empty_book 0 add_bid_1) 1 cancel_1_ask_part)
            (side add_bid_1) (price add_bid_1))"
proof -
  have h1: "action cancel_1_ask_part = Action_C"
    by (simp add: cancel_1_ask_part_def mk_event_def)
  have h2: "orders (apply_event empty_book 0 add_bid_1) (order_id cancel_1_ask_part) = Some (0, add_bid_1)"
    by (simp add: cancel_1_ask_part_def add_bid_1_def book_defs)
  have h3: "(side cancel_1_ask_part = Side_B) \<noteq> (side add_bid_1 = Side_B)"
    by (simp add: cancel_1_ask_part_def add_bid_1_def mk_event_def)
  have h4: "NodePtr (order_id cancel_1_ask_part) 0 \<in>
     set (lev (apply_event empty_book 0 add_bid_1) (side add_bid_1) (price add_bid_1))"
    by (simp add: cancel_1_ask_part_def add_bid_1_def lev_def book_defs)
  from cancel_uses_event_side [OF h1 h2 h3 h4, where e = 1 and ev = Map.empty]
  show ?thesis
    using h1 h2 h3 h4 by blast
qed

text \<open>The same on the sample book: both ladders after the partial Cancel with side Ask.\<close>

lemma cancel_uses_event_side_eval:
  "bids (apply_event (apply_event empty_book 0 add_bid_1) 1 cancel_1_ask_part) =
     [(100500000000, [NodePtr 1 0])] \<and>
   offers (apply_event (apply_event empty_book 0 add_bid_1) 1 cancel_1_ask_part) =
     [(100500000000, [NodePtr 1 0])] \<and>
   snapshot junk Map.empty (apply_event (apply_event empty_book 0 add_bid_1) 1 cancel_1_ask_part) 1 =
     [PriceLevel 100500000000 7 1, PriceLevel 100500000000 7 1]"
  by (simp add: add_bid_1_def cancel_1_ask_part_def book_defs snap_defs)

text \<open>
  C9 as stated fails in two ways. First, when the two sides differ but choose the same
  ladder: order 1 rests on the ask side and the Cancel carries side None; both select
  the offers, the reference is removed from its level and nothing is appended anywhere.
  Second, when the reference is not in the ladder of the stored side: a Modify with
  side Ask has overwritten the stored side of order 1, whose reference stays in the
  bids; a Cancel with side Bid then differs from the stored side, and it removes the
  reference from the level that holds it.
\<close>

theorem cancel_differing_side_removes_reference:
  "side cancel_1_none \<noteq> side add_ask_1 \<and>
   orders (apply_event empty_book 0 add_ask_1) (order_id cancel_1_none) = Some (0, add_ask_1) \<and>
   offers (apply_event empty_book 0 add_ask_1) = [(100500000000, [NodePtr 1 0])] \<and>
   offers (apply_event (apply_event empty_book 0 add_ask_1) 1 cancel_1_none) = [] \<and>
   bids (apply_event (apply_event empty_book 0 add_ask_1) 1 cancel_1_none) = [] \<and>
   side cancel_1_bid_all \<noteq> side modify_1_ask \<and>
   orders (apply_event (apply_event empty_book 0 add_bid_1) 1 modify_1_ask) (order_id cancel_1_bid_all) =
     Some (0, modify_1_ask) \<and>
   bids (apply_event (apply_event empty_book 0 add_bid_1) 1 modify_1_ask) =
     [(100500000000, [NodePtr 1 0])] \<and>
   offers (apply_event (apply_event empty_book 0 add_bid_1) 1 modify_1_ask) = [] \<and>
   bids (apply_event (apply_event (apply_event empty_book 0 add_bid_1) 1 modify_1_ask) 2 cancel_1_bid_all) = [] \<and>
   offers (apply_event (apply_event (apply_event empty_book 0 add_bid_1) 1 modify_1_ask) 2 cancel_1_bid_all) = []"
  by (simp add: add_ask_1_def cancel_1_none_def add_bid_1_def modify_1_ask_def cancel_1_bid_all_def
      book_defs)

text \<open>
  A reference to an erased node and the storage of that node. Order 1 rests on the bid
  side and is erased by a Cancel with side Ask, which leaves its reference in the bids.
  Order 2 is then added on the ask side at the same price and cancelled in part with
  side Bid. With an allocator that gives order 2 the storage of order 1, the reference
  left by order 1 compares equal to the address of order 2 and is removed; with an
  allocator that never takes freed storage, it stays.
\<close>

lemma stale_reference_and_reused_storage:
  "bids (apply_all empty_book 0 [add_bid_1, cancel_1_ask, add_ask_2_same, cancel_2_bid_part]) =
     [(100500000000, [NodePtr 2 1])] \<and>
   bids (apply_all (empty_book\<lparr>reuse_choice := (\<lambda>g. None)\<rparr>) 0
           [add_bid_1, cancel_1_ask, add_ask_2_same, cancel_2_bid_part]) =
     [(100500000000, [NodePtr 1 0, NodePtr 2 1])]"
  by (simp add: add_bid_1_def cancel_1_ask_def add_ask_2_same_def cancel_2_bid_part_def book_defs)

text \<open>
  The same for \<^verbatim>\<open>modify\<close>. Order 2 is added on the bid side at the price of the
  erased order 1 and then modified to another price. When order 2 has the storage of
  order 1, the reference left by order 1 leaves the old level together with the
  reference to order 2, and the level is erased; otherwise the level stays, with the
  reference to the erased node.
\<close>

lemma stale_reference_removed_by_modify:
  "bids (apply_all empty_book 0 [add_bid_1, cancel_1_ask, add_bid_2, modify_2_bid_99]) =
     [(99000000000, [NodePtr 2 1])] \<and>
   bids (apply_all (empty_book\<lparr>reuse_choice := (\<lambda>g. None)\<rparr>) 0
           [add_bid_1, cancel_1_ask, add_bid_2, modify_2_bid_99]) =
     [(99000000000, [NodePtr 2 1]), (100500000000, [NodePtr 1 0])]"
  by (simp add: add_bid_1_def cancel_1_ask_def add_bid_2_def modify_2_bid_99_def book_defs)

lemma level_at_mem_ladder:
  "p \<in> set (level_at lvl k) \<Longrightarrow> \<exists>vec. (k, vec) \<in> set lvl \<and> p \<in> set vec"
proof -
  assume a: "p \<in> set (level_at lvl k)"
  then obtain vec where v: "map_of lvl k = Some vec"
    by (cases "map_of lvl k") (auto simp: level_at_def)
  with a have "p \<in> set vec" by (simp add: level_at_def)
  moreover from v have "(k, vec) \<in> set lvl" by (rule map_of_SomeD)
  ultimately show ?thesis by blast
qed

section \<open>The shape of a snapshot\<close>

lemma keys_set_level: "fst ` set (set_level p v lvl) = insert p (fst ` set lvl)"
proof (induction lvl)
  case Nil
  then show ?case by simp
next
  case (Cons kw rest)
  obtain k w where kw: "kw = (k, w)" by (cases kw)
  show ?case unfolding kw using Cons.IH by (simp add: insert_commute)
qed

lemma sorted_set_level:
  "sorted_wrt (<) (map fst lvl) \<Longrightarrow> sorted_wrt (<) (map fst (set_level p v lvl))"
proof (induction lvl)
  case Nil
  then show ?case by simp
next
  case (Cons kw rest)
  obtain k w where kw: "kw = (k, w)" by (cases kw)
  from Cons.prems kw have rest: "sorted_wrt (<) (map fst rest)"
    and above: "\<forall>x\<in>set (map fst rest). k < x"
    by auto
  show ?case
  proof (cases "p < k")
    case True
    with kw above rest show ?thesis by auto
  next
    case False
    show ?thesis
    proof (cases "p = k")
      case True
      with kw above rest show ?thesis by auto
    next
      case ne: False
      with False have "k < p" by simp
      with kw ne False above Cons.IH [OF rest] show ?thesis
        by (auto simp: keys_set_level)
    qed
  qed
qed

lemma sorted_erase_level:
  "sorted_wrt (<) (map fst lvl) \<Longrightarrow> sorted_wrt (<) (map fst (erase_level p lvl))"
  by (induction lvl) (auto simp: erase_level_def)

lemma sorted_book_set_ladder:
  "sorted_book b \<Longrightarrow> sorted_wrt (<) (map fst l) \<Longrightarrow> sorted_book (set_ladder s l b)"
  by (simp add: sorted_book_def set_ladder_def)

lemma sorted_book_ladder: "sorted_book b \<Longrightarrow> sorted_wrt (<) (map fst (ladder b s))"
  by (simp add: sorted_book_def ladder_def)

lemma sorted_book_orders [simp]: "sorted_book (b\<lparr>orders := x\<rparr>) = sorted_book b"
  by (simp add: sorted_book_def)

lemma sorted_book_free_store [simp]: "sorted_book (b\<lparr>free_store := x\<rparr>) = sorted_book b"
  by (simp add: sorted_book_def)

lemma sorted_book_emplace [simp]: "sorted_book (emplace k m b) = sorted_book b"
  by (simp add: sorted_book_def emplace_def split: option.splits)

lemma sorted_book_empty: "sorted_book empty_book"
  by (simp add: sorted_book_def empty_book_def)

lemma sorted_book_add: "sorted_book b \<Longrightarrow> sorted_book (add b e m)"
  by (auto simp: add_def Let_def split: option.splits
      intro!: sorted_book_set_ladder sorted_set_level sorted_book_ladder)

lemma sorted_book_cancel: "sorted_book b \<Longrightarrow> sorted_book (cancel b m)"
  by (auto simp: cancel_def Let_def split: option.splits
      intro!: sorted_book_set_ladder sorted_set_level sorted_erase_level sorted_book_ladder)

lemma sorted_book_modify: "sorted_book b \<Longrightarrow> sorted_book (modify b e m)"
  by (auto simp: modify_def Let_def sorted_book_add split: option.splits
      intro!: sorted_book_set_ladder sorted_set_level sorted_erase_level sorted_book_ladder)

lemma sorted_book_clear: "sorted_book (clear b)"
  by (simp add: clear_def sorted_book_def)

lemma sorted_book_apply_event: "sorted_book b \<Longrightarrow> sorted_book (apply_event b e m)"
  by (cases "action m")
    (simp_all add: apply_event_def sorted_book_add sorted_book_cancel sorted_book_modify
      sorted_book_clear)

lemma level_totals_sums:
  "level_totals mem vec sz ct =
     (sz + sum_list (map (\<lambda>p. size' (mem p)) (filter (\<lambda>p. \<not> is_tob (mem p)) vec)),
      ct + of_nat (length (filter (\<lambda>p. \<not> is_tob (mem p)) vec)))"
  by (induction vec arbitrary: sz ct) (auto simp: add.assoc)

lemma fill_rows_aggregate:
  "fill_rows mem lvl cnt d =
     map (aggregate_row mem) (take (d - cnt) lvl)
     @ replicate (d - cnt - length lvl) (PriceLevel PRICE_UNDEF 0 0)"
proof (induction lvl arbitrary: cnt)
  case Nil
  then show ?case by simp
next
  case (Cons kv rest)
  obtain k vec where kv: "kv = (k, vec)" by (cases kv)
  show ?case
  proof (cases "cnt < d")
    case True
    then obtain j where j: "d - cnt = Suc j" and j': "d - Suc cnt = j"
      by (cases "d - cnt") auto
    have rest: "fill_rows mem rest (Suc cnt) d =
        map (aggregate_row mem) (take j rest)
        @ replicate (j - length rest) (PriceLevel PRICE_UNDEF 0 0)"
      using Cons.IH [of "Suc cnt"] by (simp add: j')
    show ?thesis
      using True by (simp add: kv rest j level_totals_sums aggregate_row_def)
  next
    case False
    then show ?thesis by (simp add: kv)
  qed
qed

text \<open>
  C7. \<^verbatim>\<open>snapshot\<close> is a function of the book and of what the pointers read; it
  returns no book. Its result is, for the bids, one row per level for the first
  \<open>d\<close> levels in reverse key order, then padding rows (undefined price, 0, 0) up to
  \<open>d\<close> rows, and then the same for the offers in key order. Each side has exactly
  \<open>d\<close> rows; the prices of the bid rows descend and those of the ask rows ascend,
  the keys of a \<^verbatim>\<open>std::map\<close> being in ascending order.
\<close>

theorem snapshot_rows:
  assumes "sorted_book b"
  shows "snapshot junk ev b d =
           (map (aggregate_row (load junk ev b)) (take d (rev (bids b)))
            @ replicate (d - length (bids b)) (PriceLevel PRICE_UNDEF 0 0))
           @ (map (aggregate_row (load junk ev b)) (take d (offers b))
            @ replicate (d - length (offers b)) (PriceLevel PRICE_UNDEF 0 0)) \<and>
         length (map (aggregate_row (load junk ev b)) (take d (rev (bids b)))
            @ replicate (d - length (bids b)) (PriceLevel PRICE_UNDEF 0 0)) = d \<and>
         length (map (aggregate_row (load junk ev b)) (take d (offers b))
            @ replicate (d - length (offers b)) (PriceLevel PRICE_UNDEF 0 0)) = d \<and>
         map level_price (map (aggregate_row (load junk ev b)) (take d (rev (bids b)))) =
           take d (rev (map fst (bids b))) \<and>
         map level_price (map (aggregate_row (load junk ev b)) (take d (offers b))) =
           take d (map fst (offers b)) \<and>
         sorted_wrt (>) (take d (rev (map fst (bids b)))) \<and>
         sorted_wrt (<) (take d (map fst (offers b)))"
proof -
  let ?mem = "load junk ev b"
  have snap: "snapshot junk ev b d =
           (map (aggregate_row ?mem) (take d (rev (bids b)))
            @ replicate (d - length (bids b)) (PriceLevel PRICE_UNDEF 0 0))
           @ (map (aggregate_row ?mem) (take d (offers b))
            @ replicate (d - length (offers b)) (PriceLevel PRICE_UNDEF 0 0))"
    by (simp add: snapshot_def fill_def fill_rows_aggregate)
  have price: "map level_price (map (aggregate_row ?mem) (take d xs)) = take d (map fst xs)" for xs
    by (simp add: aggregate_row_def comp_def take_map)
  have desc: "sorted_wrt (>) (take d (rev (map fst (bids b))))"
  proof -
    have "sorted_wrt (>) (rev (map fst (bids b)))"
      using assms by (simp add: sorted_wrt_rev sorted_book_def)
    then show ?thesis by (rule sorted_wrt_take)
  qed
  have asc: "sorted_wrt (<) (take d (map fst (offers b)))"
    using assms by (simp add: sorted_book_def sorted_wrt_take)
  have len: "length (map (aggregate_row ?mem) (take d xs)
      @ replicate (d - length xs) (PriceLevel PRICE_UNDEF 0 0)) = d" for xs :: ladder
    by simp
  have lenb: "length (map (aggregate_row ?mem) (take d (rev (bids b)))
      @ replicate (d - length (bids b)) (PriceLevel PRICE_UNDEF 0 0)) = d"
    using len [of "rev (bids b)"] by (simp only: length_rev)
  have priceb: "map level_price (map (aggregate_row ?mem) (take d (rev (bids b)))) =
      take d (rev (map fst (bids b)))"
    using price [of "rev (bids b)"] by (simp only: rev_map)
  show ?thesis
    using snap lenb len [of "offers b"] priceb price [of "offers b"] desc asc by blast
qed

theorem snapshot_rows_witness:
  "sorted_book (apply_event (apply_event empty_book 0 add_bid_1) 1 add_ask_2) \<and>
   length (snapshot (\<lambda>p. trade_ev) Map.empty
     (apply_event (apply_event empty_book 0 add_bid_1) 1 add_ask_2) 10) = 20"
proof -
  have h: "sorted_book (apply_event (apply_event empty_book 0 add_bid_1) 1 add_ask_2)"
    by (intro sorted_book_apply_event sorted_book_empty)
  from snapshot_rows [OF h, of "\<lambda>p. trade_ev" Map.empty 10]
  have "length (snapshot (\<lambda>p. trade_ev) Map.empty
     (apply_event (apply_event empty_book 0 add_bid_1) 1 add_ask_2) 10) = 10 + 10"
    by (simp only: length_append)
  then show ?thesis using h by simp
qed

section \<open>Modify of a known id with the flag\<close>

lemma snapshot_aggregate:
  "snapshot junk ev b d =
     (map (aggregate_row (load junk ev b)) (take d (rev (bids b)))
      @ replicate (d - length (bids b)) (PriceLevel PRICE_UNDEF 0 0))
     @ (map (aggregate_row (load junk ev b)) (take d (offers b))
      @ replicate (d - length (offers b)) (PriceLevel PRICE_UNDEF 0 0))"
  by (simp add: snapshot_def fill_def fill_rows_aggregate)

lemma aggregate_row_skip:
  assumes "is_tob (mem p)"
  shows "aggregate_row mem (q, removeAll p vec) = aggregate_row mem (q, vec)"
proof -
  have "filter (\<lambda>x. \<not> is_tob (mem x)) (removeAll p vec) = filter (\<lambda>x. \<not> is_tob (mem x)) vec"
    using assms by (induction vec) auto
  then show ?thesis
    by (simp add: aggregate_row_def)
qed

lemma load_without_ref: "load junk ev (without_ref p b) = load junk ev b"
  by (rule ext) (simp add: load_def deref_def without_ref_def split: ptr.splits)

lemma snapshot_without_ref:
  assumes "is_tob (load junk ev b p)"
  shows "snapshot junk ev (without_ref p b) d = snapshot junk ev b d"
proof -
  let ?f = "\<lambda>kv :: int \<times> ptr list. (fst kv, removeAll p (snd kv))"
  let ?mem = "load junk ev b"
  have agg: "aggregate_row ?mem (?f kv) = aggregate_row ?mem kv" for kv
    using aggregate_row_skip [where mem = ?mem and p = p, OF assms] by simp
  have rows: "map (aggregate_row ?mem) (take d (map ?f l)) = map (aggregate_row ?mem) (take d l)" for l
    by (simp add: take_map agg comp_def)
  have rrows: "map (aggregate_row ?mem) (take d (rev (map ?f l))) =
      map (aggregate_row ?mem) (take d (rev l))" for l
    using rows [of "rev l"] by (simp only: rev_map)
  have b: "bids (without_ref p b) = map ?f (bids b)" and o: "offers (without_ref p b) = map ?f (offers b)"
    by (simp_all add: without_ref_def)
  show ?thesis
    unfolding snapshot_aggregate load_without_ref b o rows rrows by simp
qed

lemma snapshot_row_visited:
  assumes "kv \<in> set (visited b s d)"
  shows "aggregate_row (load junk ev b) kv \<in> set (snapshot junk ev b d)"
proof (cases "s = Side_B")
  case True
  with assms have "kv \<in> set (take d (rev (bids b)))" by (simp add: visited_def)
  then show ?thesis unfolding snapshot_aggregate by simp
next
  case False
  with assms have "kv \<in> set (take d (offers b))" by (simp add: visited_def)
  then show ?thesis unfolding snapshot_aggregate by simp
qed

text \<open>An event that does not write under order id \<open>k\<close> keeps the node and its flags.\<close>

lemma orders_add_other: "order_id m \<noteq> k \<Longrightarrow> orders (add b e m) k = orders b k"
  by (auto simp: add_def emplace_def Let_def split: option.splits)

lemma orders_modify_other: "order_id m \<noteq> k \<Longrightarrow> orders (modify b e m) k = orders b k"
  by (auto simp: modify_def Let_def orders_add_other split: option.splits)

lemma orders_cancel:
  "orders (cancel b m) k =
     (if order_id m = k then
        (case orders b k of
           None \<Rightarrow> None
         | Some (g, msg) \<Rightarrow>
             if size' m < size' msg then Some (g, msg\<lparr>size' := size' msg - size' m\<rparr>) else None)
      else orders b k)"
proof -
  have nz: "size' m < size' msg \<Longrightarrow> size' msg - size' m \<noteq> 0" for msg :: MboMessage by auto
  show ?thesis
    using nz by (auto simp: cancel_def Let_def split: option.splits)
qed

lemma orders_after_event:
  assumes "\<not> writes_id k m2"
  shows "case orders (apply_event b e m2) k of
           None \<Rightarrow> True
         | Some (g2, x2) \<Rightarrow> (\<exists>x. orders b k = Some (g2, x) \<and> flags x2 = flags x)"
proof (cases "action m2")
  case Action_A
  with assms have "order_id m2 \<noteq> k" by (simp add: writes_id_def)
  then show ?thesis
    by (simp add: apply_event_def Action_A orders_add_other split: option.splits)
next
  case Action_M
  with assms have "order_id m2 \<noteq> k" by (simp add: writes_id_def)
  then show ?thesis
    by (simp add: apply_event_def Action_M orders_modify_other split: option.splits)
next
  case Action_C
  then show ?thesis
    by (simp add: apply_event_def orders_cancel split: option.splits)
next
  case Action_R
  then show ?thesis by (simp add: apply_event_def clear_def)
qed (simp_all add: apply_event_def split: option.splits)

lemma flags_kept_along:
  assumes "\<forall>m2\<in>set ms. \<not> writes_id k m2"
    and "case orders b k of None \<Rightarrow> True | Some (g2, x) \<Rightarrow> g2 = g \<and> flags x = fl"
  shows "case orders (apply_all b e ms) k of None \<Rightarrow> True | Some (g2, x) \<Rightarrow> g2 = g \<and> flags x = fl"
  using assms
proof (induction ms arbitrary: b e)
  case Nil
  then show ?case by simp
next
  case (Cons m2 ms)
  from Cons.prems(1) have nr: "\<not> writes_id k m2" and rest: "\<forall>m3\<in>set ms. \<not> writes_id k m3"
    by simp_all
  have "case orders (apply_event b e m2) k of None \<Rightarrow> True | Some (g2, x) \<Rightarrow> g2 = g \<and> flags x = fl"
    using orders_after_event [OF nr, of b e] Cons.prems(2)
    by (auto split: option.splits)
  then have "case orders (apply_all (apply_event b e m2) (Suc e) ms) k of
      None \<Rightarrow> True | Some (g2, x) \<Rightarrow> g2 = g \<and> flags x = fl"
    by (rule Cons.IH [OF rest])
  then show ?case by simp
qed

text \<open>
  C10, as amended. A Modify with the top-of-book flag for a registered id overwrites
  the node in place: the order stays in the registry under the same node, now with the
  flags of the event. If the order was referenced from the level at its stored price in
  the ladder of its stored side, that ladder then has a level at the event's price that
  holds the reference, and every snapshot whose depth reaches that level has the row of
  the level, computed without the order. After any further events none of which is a
  Modify or an Add with that order id, the order is either no longer registered or
  still carries the flag, and then every snapshot is the snapshot of the book with the
  order's reference taken out of every level.
\<close>

theorem modify_tob_known_hides_order:
  assumes "action m = Action_M" and "is_tob m"
    and "orders b (order_id m) = Some (g, msg)"
    and "\<forall>m2\<in>set ms. \<not> writes_id (order_id m) m2"
  shows "orders (apply_event b e m) = (orders b)(order_id m \<mapsto> (g, m)) \<and>
         (NodePtr (order_id m) g \<in> set (lev b (side msg) (price msg)) \<longrightarrow>
            (\<exists>vec. (price m, vec) \<in> set (ladder (apply_event b e m) (side msg)) \<and>
                   NodePtr (order_id m) g \<in> set vec \<and>
                   (\<forall>junk ev d.
                      (price m, vec) \<in> set (visited (apply_event b e m) (side msg) d) \<longrightarrow>
                      aggregate_row (load junk ev (apply_event b e m))
                          (price m, removeAll (NodePtr (order_id m) g) vec)
                        \<in> set (snapshot junk ev (apply_event b e m) d)))) \<and>
         (case orders (apply_all (apply_event b e m) k ms) (order_id m) of
            None \<Rightarrow> True
          | Some (g2, x) \<Rightarrow>
              g2 = g \<and> is_tob x \<and>
              (\<forall>junk ev d.
                 snapshot junk ev (apply_all (apply_event b e m) k ms) d =
                 snapshot junk ev
                   (without_ref (NodePtr (order_id m) g) (apply_all (apply_event b e m) k ms)) d))"
proof -
  let ?p = "NodePtr (order_id m) g"
  let ?b = "apply_event b e m"
  let ?b2 = "apply_all ?b k ms"
  have ap: "?b = modify b e m"
    using assms(1) by (simp add: apply_event_def)
  have ords: "orders ?b = (orders b)(order_id m \<mapsto> (g, m))"
    using assms(3) by (simp add: ap modify_def Let_def)
  have flagged: "is_tob (load junk ev ?b ?p)" for junk ev
    using assms(2) by (simp add: load_node [of _ _ g m] ords)
  have row: "\<exists>vec. (price m, vec) \<in> set (ladder ?b (side msg)) \<and> ?p \<in> set vec \<and>
      (\<forall>junk ev d. (price m, vec) \<in> set (visited ?b (side msg) d) \<longrightarrow>
         aggregate_row (load junk ev ?b) (price m, removeAll ?p vec) \<in> set (snapshot junk ev ?b d))"
    if ref: "?p \<in> set (lev b (side msg) (price msg))"
  proof -
    have mem: "?p \<in> set (level_at (ladder ?b (side msg)) (price m))"
    proof (cases "price msg \<noteq> price m")
      case True
      then show ?thesis
        using assms(3) by (simp add: ap modify_def Let_def ladder_set_ladder level_at_set_level)
    next
      case False
      then show ?thesis
        using assms(3) ref
        by (simp add: ap modify_def Let_def lev_def ladder_set_ladder level_at_set_level)
    qed
    from level_at_mem_ladder [OF mem]
    obtain vec where v: "(price m, vec) \<in> set (ladder ?b (side msg))" and pv: "?p \<in> set vec"
      by blast
    have "aggregate_row (load junk ev ?b) (price m, removeAll ?p vec) \<in> set (snapshot junk ev ?b d)"
      if "(price m, vec) \<in> set (visited ?b (side msg) d)" for junk ev d
      using snapshot_row_visited [OF that, of junk ev]
        aggregate_row_skip [where mem = "load junk ev ?b" and p = ?p, OF flagged]
      by simp
    with v pv show ?thesis by blast
  qed
  have start: "case orders ?b (order_id m) of
      None \<Rightarrow> True | Some (g2, x) \<Rightarrow> g2 = g \<and> flags x = flags m"
    by (simp add: ords)
  note kept = flags_kept_along [OF assms(4) start, of k]
  have later: "case orders ?b2 (order_id m) of
      None \<Rightarrow> True
    | Some (g2, x) \<Rightarrow> g2 = g \<and> is_tob x \<and>
        (\<forall>junk ev d. snapshot junk ev ?b2 d = snapshot junk ev (without_ref ?p ?b2) d)"
  proof (cases "orders ?b2 (order_id m)")
    case None
    then show ?thesis by simp
  next
    case (Some gx)
    obtain g2 x where gx: "gx = (g2, x)" by (cases gx)
    from kept Some gx have g2: "g2 = g" and fl: "flags x = flags m" by simp_all
    from fl assms(2) have tx: "is_tob x" by (simp add: is_tob_def)
    have "load junk ev ?b2 ?p = x" for junk ev
      using Some gx g2 by (simp add: load_node)
    then have "is_tob (load junk ev ?b2 ?p)" for junk ev
      using tx by simp
    then have "snapshot junk ev ?b2 d = snapshot junk ev (without_ref ?p ?b2) d" for junk ev d
      by (simp add: snapshot_without_ref)
    with Some gx g2 tx show ?thesis by simp
  qed
  show ?thesis
    using ords row later by blast
qed

theorem modify_tob_known_hides_order_witness:
  "action modify_1_tob = Action_M \<and> is_tob modify_1_tob \<and>
   orders (apply_event empty_book 0 add_bid_1) (order_id modify_1_tob) = Some (0, add_bid_1) \<and>
   \<not> writes_id (order_id modify_1_tob) add_ask_2 \<and>
   \<not> writes_id (order_id modify_1_tob) cancel_1_bid_part \<and>
   NodePtr (order_id modify_1_tob) 0 \<in>
     set (lev (apply_event empty_book 0 add_bid_1) (side add_bid_1) (price add_bid_1)) \<and>
   orders (apply_event (apply_event empty_book 0 add_bid_1) 1 modify_1_tob) =
     (orders (apply_event empty_book 0 add_bid_1))(order_id modify_1_tob \<mapsto> (0, modify_1_tob)) \<and>
   (\<exists>vec. (price modify_1_tob, vec) \<in>
            set (ladder (apply_event (apply_event empty_book 0 add_bid_1) 1 modify_1_tob) (side add_bid_1)) \<and>
          NodePtr (order_id modify_1_tob) 0 \<in> set vec)"
proof -
  have h1: "action modify_1_tob = Action_M"
    by (simp add: modify_1_tob_def mk_event_def)
  have h2: "is_tob modify_1_tob"
    by (simp add: modify_1_tob_def mk_event_def is_tob_def)
  have h3: "orders (apply_event empty_book 0 add_bid_1) (order_id modify_1_tob) = Some (0, add_bid_1)"
    by (simp add: modify_1_tob_def add_bid_1_def book_defs)
  have w1: "\<not> writes_id (order_id modify_1_tob) add_ask_2"
    and w2: "\<not> writes_id (order_id modify_1_tob) cancel_1_bid_part"
    by (simp_all add: writes_id_def modify_1_tob_def add_ask_2_def cancel_1_bid_part_def mk_event_def)
  then have h4: "\<forall>m2\<in>set [add_ask_2, cancel_1_bid_part]. \<not> writes_id (order_id modify_1_tob) m2"
    by simp
  have r: "NodePtr (order_id modify_1_tob) 0 \<in>
     set (lev (apply_event empty_book 0 add_bid_1) (side add_bid_1) (price add_bid_1))"
    by (simp add: modify_1_tob_def add_bid_1_def lev_def book_defs)
  from modify_tob_known_hides_order [OF h1 h2 h3 h4, where e = 1 and k = 2]
  show ?thesis
    using h1 h2 h3 w1 w2 r by blast
qed

text \<open>
  The same on the sample book: after the flagged Modify the level at 100.5 is reported
  with size 0 and count 0, and so it is after an Add of order 2 on the ask side and a
  Cancel of 3 units of order 1.
\<close>

lemma modify_tob_known_eval:
  "snapshot junk Map.empty (apply_event (apply_event empty_book 0 add_bid_1) 1 modify_1_tob) 1 =
     [PriceLevel 100500000000 0 0, PriceLevel PRICE_UNDEF 0 0] \<and>
   snapshot junk Map.empty
     (apply_all (apply_event (apply_event empty_book 0 add_bid_1) 1 modify_1_tob) 2
        [add_ask_2, cancel_1_bid_part]) 1 =
     [PriceLevel 100500000000 0 0, PriceLevel 101000000000 4 1]"
  by (simp add: modify_1_tob_def add_bid_1_def add_ask_2_def cancel_1_bid_part_def
      book_defs snap_defs)

text \<open>
  C10 as stated fails in two ways. First, \<open>every subsequent snapshot\<close>: a later
  Modify of order 1 without the flag overwrites the stored flags, and the order is
  counted again; so is order id 1 when the order is cancelled and the id is added
  again. Second, the price row: after a flagged Add has replaced the bid ladder,
  order 1 is registered but no level references it; the flagged Modify (same price,
  same size) changes no ladder, and the snapshot has no row at the order's price.
\<close>

theorem modify_tob_known_shown_again:
  "action modify_1_tob = Action_M \<and> is_tob modify_1_tob \<and>
   orders (apply_event empty_book 0 add_bid_1) (order_id modify_1_tob) = Some (0, add_bid_1) \<and>
   snapshot (\<lambda>p. trade_ev) Map.empty
     (apply_event (apply_event empty_book 0 add_bid_1) 1 modify_1_tob) 1 =
     [PriceLevel 100500000000 0 0, PriceLevel PRICE_UNDEF 0 0] \<and>
   snapshot (\<lambda>p. trade_ev) Map.empty
     (apply_event (apply_event (apply_event empty_book 0 add_bid_1) 1 modify_1_tob) 2 modify_1_plain) 1 =
     [PriceLevel 100500000000 10 1, PriceLevel PRICE_UNDEF 0 0] \<and>
   snapshot (\<lambda>p. trade_ev) Map.empty
     (apply_event (apply_event (apply_event (apply_event empty_book 0 add_bid_1) 1 modify_1_tob)
        2 cancel_1_bid_all) 3 add_bid_1) 1 =
     [PriceLevel 100500000000 10 1, PriceLevel PRICE_UNDEF 0 0] \<and>
   orders (apply_event (apply_event empty_book 0 add_bid_1) 1 tob_bid_99) (order_id modify_1_tob) =
     Some (0, add_bid_1) \<and>
   orders (apply_event (apply_event (apply_event empty_book 0 add_bid_1) 1 tob_bid_99) 2 modify_1_tob) 1 =
     Some (0, modify_1_tob) \<and>
   bids (apply_event (apply_event (apply_event empty_book 0 add_bid_1) 1 tob_bid_99) 2 modify_1_tob) =
     [(99000000000, [EventPtr 1])] \<and>
   offers (apply_event (apply_event (apply_event empty_book 0 add_bid_1) 1 tob_bid_99) 2 modify_1_tob) = [] \<and>
   map level_price (snapshot (\<lambda>p. trade_ev) Map.empty
     (apply_event (apply_event (apply_event empty_book 0 add_bid_1) 1 tob_bid_99) 2 modify_1_tob) 2) =
     [99000000000, PRICE_UNDEF, PRICE_UNDEF, PRICE_UNDEF]"
proof -
  let ?b1 = "apply_event empty_book 0 add_bid_1"
  let ?b = "apply_event (apply_event ?b1 1 tob_bid_99) 2 modify_1_tob"
  have hyp: "action modify_1_tob = Action_M \<and> is_tob modify_1_tob \<and>
      orders ?b1 (order_id modify_1_tob) = Some (0, add_bid_1)"
    by (simp add: modify_1_tob_def add_bid_1_def book_defs)
  have hidden: "snapshot (\<lambda>p. trade_ev) Map.empty (apply_event ?b1 1 modify_1_tob) 1 =
      [PriceLevel 100500000000 0 0, PriceLevel PRICE_UNDEF 0 0]"
    by (simp add: modify_1_tob_def add_bid_1_def trade_ev_def book_defs snap_defs)
  have again: "snapshot (\<lambda>p. trade_ev) Map.empty
      (apply_event (apply_event ?b1 1 modify_1_tob) 2 modify_1_plain) 1 =
      [PriceLevel 100500000000 10 1, PriceLevel PRICE_UNDEF 0 0]"
    by (simp add: modify_1_tob_def modify_1_plain_def add_bid_1_def trade_ev_def book_defs snap_defs)
  have gone: "apply_event (apply_event ?b1 1 modify_1_tob) 2 cancel_1_bid_all =
      empty_book\<lparr>orders := Map.empty, allocs := 1, node_address := (\<lambda>g. g)(0 := 0),
        free_store := [0]\<rparr>"
    by (simp add: modify_1_tob_def cancel_1_bid_all_def add_bid_1_def book_defs)
  have readd: "snapshot (\<lambda>p. trade_ev) Map.empty
      (apply_event (apply_event (apply_event ?b1 1 modify_1_tob) 2 cancel_1_bid_all) 3 add_bid_1) 1 =
      [PriceLevel 100500000000 10 1, PriceLevel PRICE_UNDEF 0 0]"
    unfolding gone by (simp add: add_bid_1_def trade_ev_def book_defs snap_defs)
  have reg: "orders (apply_event ?b1 1 tob_bid_99) (order_id modify_1_tob) = Some (0, add_bid_1)"
    by (simp add: modify_1_tob_def tob_bid_99_def add_bid_1_def book_defs)
  have ord: "orders ?b 1 = Some (0, modify_1_tob)"
    by (simp add: modify_1_tob_def tob_bid_99_def add_bid_1_def book_defs)
  have bd: "bids ?b = [(99000000000, [EventPtr 1])]" and od: "offers ?b = []"
    by (simp_all add: modify_1_tob_def tob_bid_99_def add_bid_1_def book_defs)
  have two: "replicate 2 x = [x, x]" for x :: PriceLevel
    by (simp add: numeral_2_eq_2)
  have prices: "map level_price (snapshot (\<lambda>p. trade_ev) Map.empty ?b 2) =
      [99000000000, PRICE_UNDEF, PRICE_UNDEF, PRICE_UNDEF]"
    unfolding snapshot_aggregate bd od by (simp add: aggregate_row_def two)
  show ?thesis
    using hyp hidden again readd reg ord bd od prices by blast
qed

section \<open>Consistency of registry and ladders\<close>

lemma count_list_removeAll:
  "count_list (removeAll x xs) y = (if x = y then 0 else count_list xs y)"
  by (induction xs) auto

lemma lev_orders_update [simp]: "lev (b\<lparr>orders := x\<rparr>) s q = lev b s q"
  by (simp add: lev_def)

lemma lev_free_store_update [simp]: "lev (b\<lparr>free_store := x\<rparr>) s q = lev b s q"
  by (simp add: lev_def)

lemma lev_same_ladder: "(s = Side_B) = (t = Side_B) \<Longrightarrow> lev b s q = lev b t q"
  by (simp add: lev_def ladder_def)

text \<open>What each operation does to the registry and to the levels.\<close>

lemma add_fresh_effect:
  assumes "\<not> is_tob m" and "orders b (order_id m) = None"
  shows "orders (add b e m) = (orders b)(order_id m \<mapsto> (allocs b, m))"
    and "lev (add b e m) s q =
           (if (s = Side_B) = (side m = Side_B) \<and> q = price m
            then lev b s q @ [NodePtr (order_id m) (allocs b)] else lev b s q)"
  using assms
  by (auto simp: add_def emplace_def Let_def lev_def set_ladder_def level_at_set_level
      ladder_def)

lemma cancel_known_effect:
  assumes "orders b (order_id m) = Some (g, msg)"
  shows "orders (cancel b m) =
           (if size' m < size' msg
            then (orders b)(order_id m \<mapsto> (g, msg\<lparr>size' := size' msg - size' m\<rparr>))
            else (orders b)(order_id m := None))"
    and "lev (cancel b m) s q =
           (if (s = Side_B) = (side m = Side_B) \<and> q = price msg
            then (if size' m < size' msg
                  then remove_ptr b (NodePtr (order_id m) g) (lev b s q) @ [NodePtr (order_id m) g]
                  else remove_ptr b (NodePtr (order_id m) g) (lev b s q))
            else lev b s q)"
proof -
  have nz: "size' m < size' msg \<Longrightarrow> size' msg - size' m \<noteq> 0" by auto
  show "orders (cancel b m) =
           (if size' m < size' msg
            then (orders b)(order_id m \<mapsto> (g, msg\<lparr>size' := size' msg - size' m\<rparr>))
            else (orders b)(order_id m := None))"
    using assms nz by (simp add: cancel_def Let_def)
  show "lev (cancel b m) s q =
           (if (s = Side_B) = (side m = Side_B) \<and> q = price msg
            then (if size' m < size' msg
                  then remove_ptr b (NodePtr (order_id m) g) (lev b s q) @ [NodePtr (order_id m) g]
                  else remove_ptr b (NodePtr (order_id m) g) (lev b s q))
            else lev b s q)"
    using assms nz
    by (auto simp: cancel_def Let_def lev_def set_ladder_def level_at_set_level
        level_at_erase_level ladder_def)
qed

lemma modify_known_effect:
  assumes "orders b (order_id m) = Some (g, msg)"
  shows "orders (modify b e m) = (orders b)(order_id m \<mapsto> (g, m))"
    and "lev (modify b e m) s q =
           (if (s = Side_B) = (side msg = Side_B) then
              (if price msg \<noteq> price m then
                 (if q = price msg then remove_ptr b (NodePtr (order_id m) g) (lev b s q)
                  else if q = price m then lev b s q @ [NodePtr (order_id m) g]
                  else lev b s q)
               else if size' msg < size' m then
                 (if q = price msg
                  then remove_ptr b (NodePtr (order_id m) g) (lev b s q) @ [NodePtr (order_id m) g]
                  else lev b s q)
               else lev b s q)
            else lev b s q)"
proof -
  show "orders (modify b e m) = (orders b)(order_id m \<mapsto> (g, m))"
    using assms by (simp add: modify_def Let_def)
  show "lev (modify b e m) s q =
           (if (s = Side_B) = (side msg = Side_B) then
              (if price msg \<noteq> price m then
                 (if q = price msg then remove_ptr b (NodePtr (order_id m) g) (lev b s q)
                  else if q = price m then lev b s q @ [NodePtr (order_id m) g]
                  else lev b s q)
               else if size' msg < size' m then
                 (if q = price msg
                  then remove_ptr b (NodePtr (order_id m) g) (lev b s q) @ [NodePtr (order_id m) g]
                  else lev b s q)
               else lev b s q)
            else lev b s q)"
    using assms
    by (auto simp: modify_def Let_def lev_def set_ladder_def level_at_set_level
        level_at_erase_level ladder_def)
qed

lemma home_node:
  "orders b k = Some (g, msg) \<Longrightarrow> home b (NodePtr k g) = Some (side msg = Side_B, price msg)"
  by (simp add: home_def)

lemma home_SomeD:
  "home b p = Some sq \<Longrightarrow>
   \<exists>k g msg. p = NodePtr k g \<and> orders b k = Some (g, msg) \<and> sq = (side msg = Side_B, price msg)"
  by (auto simp: home_def split: ptr.splits option.splits if_splits)

lemma counts_ok_imp:
  assumes "counts_ok b"
  shows "refs_registered b" and "placed b" and "once b"
proof -
  have cnt: "count_list (lev b s q) p = (if home b p = Some (s = Side_B, q) then 1 else 0)" for s q p
    using assms by (simp add: counts_ok_def)
  have mem: "p \<in> set (lev b s q) \<longleftrightarrow> home b p = Some (s = Side_B, q)" for s q p
  proof
    assume "p \<in> set (lev b s q)"
    then have "count_list (lev b s q) p \<noteq> 0" by (simp add: count_list_0_iff)
    then show "home b p = Some (s = Side_B, q)" using cnt [of s q p] by (simp split: if_splits)
  next
    assume "home b p = Some (s = Side_B, q)"
    then have "count_list (lev b s q) p \<noteq> 0" using cnt [of s q p] by simp
    then show "p \<in> set (lev b s q)" by (simp add: count_list_0_iff)
  qed
  show "refs_registered b"
    unfolding refs_registered_def using mem home_SomeD by blast
  show "placed b"
    unfolding placed_def by (auto simp: mem home_node)
  show "once b"
    unfolding once_def by (simp add: cnt home_node)
qed

lemma consistent_imp_counts_ok:
  assumes "refs_registered b" and "placed b" and "once b"
  shows "counts_ok b"
  unfolding counts_ok_def
proof (intro allI)
  fix s q p
  show "count_list (lev b s q) p = (if home b p = Some (s = Side_B, q) then 1 else 0)"
  proof (cases "home b p = Some (s = Side_B, q)")
    case True
    from home_SomeD [OF True]
    obtain k g msg where p: "p = NodePtr k g" and o: "orders b k = Some (g, msg)"
      and sq: "(s = Side_B) = (side msg = Side_B)" "q = price msg"
      by auto
    from assms(3) o have "count_list (lev b (side msg) (price msg)) (NodePtr k g) = 1"
      unfolding once_def by blast
    moreover have "lev b s q = lev b (side msg) (price msg)"
      unfolding sq(2) using sq(1) by (rule lev_same_ladder)
    ultimately show ?thesis using True p by simp
  next
    case False
    have "p \<notin> set (lev b s q)"
    proof
      assume a: "p \<in> set (lev b s q)"
      with assms(1) obtain k g msg where p: "p = NodePtr k g" and o: "orders b k = Some (g, msg)"
        unfolding refs_registered_def by blast
      with assms(2) a have "(s = Side_B) = (side msg = Side_B) \<and> q = price msg"
        unfolding placed_def by blast
      with p o have "home b p = Some (s = Side_B, q)" by (simp add: home_def)
      with False show False by simp
    qed
    with False show ?thesis by (simp add: count_list_0_iff)
  qed
qed

lemma consistent_counts: "consistent b \<longleftrightarrow> sorted_book b \<and> counts_ok b"
proof
  assume "consistent b"
  then show "sorted_book b \<and> counts_ok b"
    by (simp add: consistent_def consistent_imp_counts_ok)
next
  assume "sorted_book b \<and> counts_ok b"
  then show "consistent b"
    by (simp add: consistent_def counts_ok_imp)
qed

lemma home_add_fresh:
  assumes "\<not> is_tob m" and "orders b (order_id m) = None"
  shows "home (add b e m) p =
      (if p = NodePtr (order_id m) (allocs b) then Some (side m = Side_B, price m) else home b p)"
proof (cases p)
  case (NodePtr k g)
  show ?thesis
  proof (cases "k = order_id m")
    case True
    then show ?thesis
      using assms by (simp add: NodePtr home_def add_fresh_effect(1))
  next
    case False
    then show ?thesis
      using assms by (simp add: NodePtr home_def add_fresh_effect(1))
  qed
next
  case (EventPtr x)
  then show ?thesis by (simp add: home_def)
qed

lemma counts_ok_add_fresh:
  assumes c: "counts_ok b" and nt: "\<not> is_tob m" and fr: "orders b (order_id m) = None"
  shows "counts_ok (add b e m)"
  unfolding counts_ok_def
proof (intro allI)
  fix s q p
  let ?P = "NodePtr (order_id m) (allocs b)"
  note lv = add_fresh_effect(2) [OF nt fr, of e s q]
  note h = home_add_fresh [OF nt fr, of e p]
  have old: "home b ?P = None"
    using fr by (simp add: home_def)
  have cnt: "count_list (lev b s q) p = (if home b p = Some (s = Side_B, q) then 1 else 0)"
    using c by (simp add: counts_ok_def)
  show "count_list (lev (add b e m) s q) p =
      (if home (add b e m) p = Some (s = Side_B, q) then 1 else 0)"
  proof (cases "p = ?P")
    case True
    with cnt old have z: "count_list (lev b s q) ?P = 0" by simp
    show ?thesis
      unfolding h lv using True z by auto
  next
    case False
    show ?thesis
      unfolding h lv using False cnt by auto
  qed
qed

lemma counts_ok_live:
  assumes "counts_ok b" and "q \<in> set (lev b s r)"
  shows "live_node b q"
proof -
  from assms(1) have "refs_registered b" by (rule counts_ok_imp)
  with assms(2) obtain k g msg where "q = NodePtr k g" and "orders b k = Some (g, msg)"
    unfolding refs_registered_def by blast
  then show ?thesis by (simp add: live_node_def)
qed

lemma remove_ptr_counts_ok:
  assumes "counts_ok b"
  shows "remove_ptr b p (lev b s q) = removeAll p (lev b s q)"
  using assms by (intro remove_ptr_live ballI) (rule counts_ok_live)

lemma home_cancel:
  assumes "orders b (order_id m) = Some (g, msg)"
  shows "home (cancel b m) p =
      (if p = NodePtr (order_id m) g \<and> \<not> size' m < size' msg then None else home b p)"
proof (cases p)
  case (NodePtr k g')
  show ?thesis
  proof (cases "k = order_id m")
    case True
    then show ?thesis
      using assms by (simp add: NodePtr home_def cancel_known_effect(1))
  next
    case False
    then show ?thesis
      using assms by (simp add: NodePtr home_def cancel_known_effect(1))
  qed
next
  case (EventPtr x)
  then show ?thesis by (simp add: home_def)
qed

lemma counts_ok_cancel:
  assumes c: "counts_ok b" and o: "orders b (order_id m) = Some (g, msg)"
    and sd: "(side m = Side_B) = (side msg = Side_B)"
  shows "counts_ok (cancel b m)"
  unfolding counts_ok_def
proof (intro allI)
  fix s q p
  let ?P = "NodePtr (order_id m) g"
  note lv = cancel_known_effect(2) [OF o, of s q]
  note rp = remove_ptr_counts_ok [OF c, of ?P s q]
  note h = home_cancel [OF o, of p]
  have old: "home b ?P = Some (side msg = Side_B, price msg)"
    using o by (rule home_node)
  have cnt: "count_list (lev b s q) p = (if home b p = Some (s = Side_B, q) then 1 else 0)"
    using c by (simp add: counts_ok_def)
  show "count_list (lev (cancel b m) s q) p =
      (if home (cancel b m) p = Some (s = Side_B, q) then 1 else 0)"
  proof (cases "p = ?P")
    case True
    show ?thesis
      unfolding h lv rp using True cnt old sd by (auto simp: count_list_removeAll)
  next
    case False
    show ?thesis
      unfolding h lv rp using False cnt by (auto simp: count_list_removeAll)
  qed
qed

lemma home_modify:
  assumes "orders b (order_id m) = Some (g, msg)"
  shows "home (modify b e m) p =
      (if p = NodePtr (order_id m) g then Some (side m = Side_B, price m) else home b p)"
proof (cases p)
  case (NodePtr k g')
  show ?thesis
  proof (cases "k = order_id m")
    case True
    then show ?thesis
      using assms by (simp add: NodePtr home_def modify_known_effect(1))
  next
    case False
    then show ?thesis
      using assms by (simp add: NodePtr home_def modify_known_effect(1))
  qed
next
  case (EventPtr x)
  then show ?thesis by (simp add: home_def)
qed

lemma counts_ok_modify:
  assumes c: "counts_ok b" and o: "orders b (order_id m) = Some (g, msg)"
    and sd: "(side m = Side_B) = (side msg = Side_B)"
  shows "counts_ok (modify b e m)"
  unfolding counts_ok_def
proof (intro allI)
  fix s q p
  let ?P = "NodePtr (order_id m) g"
  note lv = modify_known_effect(2) [OF o, of e s q]
  note rp = remove_ptr_counts_ok [OF c, of ?P s q]
  note h = home_modify [OF o, of e p]
  have old: "home b ?P = Some (side msg = Side_B, price msg)"
    using o by (rule home_node)
  have cnt: "count_list (lev b s q) p = (if home b p = Some (s = Side_B, q) then 1 else 0)"
    using c by (simp add: counts_ok_def)
  show "count_list (lev (modify b e m) s q) p =
      (if home (modify b e m) p = Some (s = Side_B, q) then 1 else 0)"
  proof (cases "p = ?P")
    case True
    show ?thesis
      unfolding h lv rp using True cnt old sd by (auto simp: count_list_removeAll)
  next
    case False
    show ?thesis
      unfolding h lv rp using False cnt by (auto simp: count_list_removeAll)
  qed
qed

lemma counts_ok_clear: "counts_ok (clear b)"
  by (simp add: counts_ok_def clear_def lev_def ladder_def level_at_def home_def split: ptr.splits)

lemma counts_ok_empty: "counts_ok empty_book"
  by (simp add: counts_ok_def empty_book_def lev_def ladder_def level_at_def home_def
      split: ptr.splits)

lemma consistent_empty: "consistent empty_book"
  using sorted_book_empty counts_ok_empty by (simp add: consistent_counts)

lemma consistent_apply_event:
  assumes c: "consistent b" and a: "admissible b m"
  shows "consistent (apply_event b e m)"
proof -
  from c have sb: "sorted_book b" and co: "counts_ok b"
    by (simp_all add: consistent_counts)
  have "sorted_book (apply_event b e m)"
    using sb by (rule sorted_book_apply_event)
  moreover have "counts_ok (apply_event b e m)"
  proof (cases "action m")
    case Action_A
    with a have "\<not> is_tob m" and "orders b (order_id m) = None"
      by (simp_all add: admissible_def)
    with co show ?thesis
      by (simp add: apply_event_def Action_A counts_ok_add_fresh)
  next
    case Action_M
    show ?thesis
    proof (cases "orders b (order_id m)")
      case None
      with a Action_M have "\<not> is_tob m" by (simp add: admissible_def)
      with co None show ?thesis
        by (simp add: apply_event_def Action_M modify_def counts_ok_add_fresh)
    next
      case (Some gm)
      obtain g msg where gm: "gm = (g, msg)" by (cases gm)
      with a Action_M Some have "(side m = Side_B) = (side msg = Side_B)"
        by (simp add: admissible_def)
      with co Some gm show ?thesis
        by (simp add: apply_event_def Action_M counts_ok_modify)
    qed
  next
    case Action_C
    show ?thesis
    proof (cases "orders b (order_id m)")
      case None
      with co show ?thesis
        by (simp add: apply_event_def Action_C cancel_def)
    next
      case (Some gm)
      obtain g msg where gm: "gm = (g, msg)" by (cases gm)
      with a Action_C Some have "(side m = Side_B) = (side msg = Side_B)"
        by (simp add: admissible_def)
      with co Some gm show ?thesis
        by (simp add: apply_event_def Action_C counts_ok_cancel)
    qed
  next
    case Action_R
    then show ?thesis by (simp add: apply_event_def counts_ok_clear)
  qed (use co in \<open>simp_all add: apply_event_def\<close>)
  ultimately show ?thesis by (simp add: consistent_counts)
qed

text \<open>
  C3, as amended. Start from a consistent book (the empty book is one) and apply a
  stream of admissible events. After every event of the stream the book is consistent:
  every ladder reference is the node of a registered order, and the node of every
  registered order is referenced exactly once, from the level at the order's stored
  price in the ladder of its stored side, and from no other level.
\<close>

theorem consistent_along_admissible_stream:
  assumes "consistent b" and "admissible_all b k ms"
  shows "consistent (apply_all b k (take n ms))"
  using assms
proof (induction ms arbitrary: b k n)
  case Nil
  then show ?case by simp
next
  case (Cons m ms)
  show ?case
  proof (cases n)
    case 0
    with Cons.prems show ?thesis by simp
  next
    case (Suc j)
    from Cons.prems have "consistent (apply_event b k m)"
      and "admissible_all (apply_event b k m) (Suc k) ms"
      by (simp_all add: consistent_apply_event)
    then have "consistent (apply_all (apply_event b k m) (Suc k) (take j ms))"
      by (rule Cons.IH)
    with Suc show ?thesis by simp
  qed
qed

theorem consistent_along_admissible_stream_witness:
  "consistent empty_book \<and>
   admissible_all empty_book 0 [add_bid_1, add_ask_2, cancel_1_bid_part, modify_1_bid] \<and>
   consistent (apply_all empty_book 0 (take 4 [add_bid_1, add_ask_2, cancel_1_bid_part, modify_1_bid]))"
proof -
  have h1: "consistent empty_book"
    by (rule consistent_empty)
  have h2: "admissible_all empty_book 0 [add_bid_1, add_ask_2, cancel_1_bid_part, modify_1_bid]"
    by (simp add: admissible_def add_bid_1_def add_ask_2_def cancel_1_bid_part_def
        modify_1_bid_def book_defs)
  from consistent_along_admissible_stream [OF h1 h2, of 4]
  show ?thesis
    using h1 h2 by blast
qed

text \<open>
  C3 as stated fails at a top-of-book replacement, by the design of \<^verbatim>\<open>add\<close>: after
  Add (order 1, bid) and a flagged Add on the bid side, order 1 is still registered but
  no level references it, and the only level references the event, which is no
  registered order.
\<close>

theorem tob_add_breaks_consistency:
  "consistent (apply_event empty_book 0 add_bid_1) \<and>
   orders (apply_event (apply_event empty_book 0 add_bid_1) 1 tob_bid) 1 = Some (0, add_bid_1) \<and>
   bids (apply_event (apply_event empty_book 0 add_bid_1) 1 tob_bid) = [(100500000000, [EventPtr 1])] \<and>
   offers (apply_event (apply_event empty_book 0 add_bid_1) 1 tob_bid) = [] \<and>
   \<not> consistent (apply_event (apply_event empty_book 0 add_bid_1) 1 tob_bid)"
proof -
  let ?b = "apply_event (apply_event empty_book 0 add_bid_1) 1 tob_bid"
  have c0: "consistent (apply_event empty_book 0 add_bid_1)"
    by (rule consistent_apply_event [OF consistent_empty])
      (simp add: admissible_def add_bid_1_def book_defs)
  have o: "orders ?b 1 = Some (0, add_bid_1)"
    by (simp add: add_bid_1_def tob_bid_def book_defs)
  have bd: "bids ?b = [(100500000000, [EventPtr 1])]"
    by (simp add: add_bid_1_def tob_bid_def book_defs)
  have od: "offers ?b = []"
    by (simp add: add_bid_1_def tob_bid_def book_defs)
  have "\<not> refs_registered ?b"
  proof
    assume "refs_registered ?b"
    moreover have "EventPtr 1 \<in> set (lev ?b Side_B 100500000000)"
      using bd by (simp add: lev_def ladder_def level_at_def)
    ultimately obtain k g where "EventPtr 1 = NodePtr k g"
      unfolding refs_registered_def by blast
    then show False by simp
  qed
  then have "\<not> consistent ?b"
    by (simp add: consistent_def)
  with c0 o bd od show ?thesis by blast
qed

section \<open>Price round trip\<close>

text \<open>
  C8 (the code at a failing input). The input price 100.123456789 is expressible at
  1e-9 resolution: it is 100123456789 units. Whatever integer the decoder produces for
  it and whatever the floating-point division yields, the field written back has six
  decimals and does not denote that price. The undefined price is written as the empty
  field, not as zero.
\<close>

theorem six_decimals_lose_nanos:
  "\<not> denotes_nanos (encode_price printed (decode_price scaled ''100.123456789'')) 100123456789 \<and>
   encode_price printed (decode_price scaled []) = EmptyField \<and>
   encode_price printed PRICE_UNDEF \<noteq> Fixed6 0"
proof -
  have "n * 1000 \<noteq> (100123456789 :: int)" for n :: int
  proof
    assume "n * 1000 = 100123456789"
    then have "(n * 1000) mod 1000 = (100123456789 :: int) mod 1000" by simp
    then show False by simp
  qed
  then show ?thesis
    by (simp add: denotes_nanos_def encode_price_def decode_price_def split: price_field.splits)
qed

section \<open>Further properties of the operations\<close>

lemma unregistered_not_referenced:
  assumes "refs_registered b" and "orders b k = None"
  shows "NodePtr k g \<notin> set (lev b s q)"
proof
  assume "NodePtr k g \<in> set (lev b s q)"
  with assms(1) obtain k' g' msg where "NodePtr k g = NodePtr k' g'" and "orders b k' = Some (g', msg)"
    unfolding refs_registered_def by blast
  with assms(2) show False by simp
qed

text \<open>
  Cancel of a registered order by an event whose side selects the ladder of the order's
  stored side, in a consistent book. If the event's size is less than the stored size,
  the stored size decreases by the event's size, which is the minimum of requested and
  remaining, and the reference moves to the end of its level. Otherwise the order is
  erased, no level references its node any more, and its level is erased when the order
  was its only member.
\<close>

theorem cancel_same_ladder:
  assumes "consistent b" and "action m = Action_C"
    and "orders b (order_id m) = Some (g, msg)"
    and "(side m = Side_B) = (side msg = Side_B)"
  shows "if size' m < size' msg then
           orders (apply_event b e m) =
             (orders b)(order_id m \<mapsto> (g, msg\<lparr>size' := size' msg - size' m\<rparr>)) \<and>
           unat (size' msg - size' m) = unat (size' msg) - min (unat (size' m)) (unat (size' msg)) \<and>
           lev (apply_event b e m) (side msg) (price msg) =
             removeAll (NodePtr (order_id m) g) (lev b (side msg) (price msg))
               @ [NodePtr (order_id m) g]
         else
           orders (apply_event b e m) = (orders b)(order_id m := None) \<and>
           (\<forall>s q. NodePtr (order_id m) g \<notin> set (lev (apply_event b e m) s q)) \<and>
           (if lev b (side msg) (price msg) = [NodePtr (order_id m) g]
            then map_of (ladder (apply_event b e m) (side msg)) (price msg) = None
            else lev (apply_event b e m) (side msg) (price msg) =
                   removeAll (NodePtr (order_id m) g) (lev b (side msg) (price msg)))"
proof -
  let ?p = "NodePtr (order_id m) g"
  let ?b = "apply_event b e m"
  have ap: "?b = cancel b m"
    using assms(2) by (simp add: apply_event_def)
  from assms(1) have co: "counts_ok b"
    by (simp add: consistent_counts)
  note eff = cancel_known_effect [OF assms(3)]
  note rp = remove_ptr_counts_ok [OF co, of ?p "side msg" "price msg"]
  have same: "ladder b (side m) = ladder b (side msg)"
    using assms(4) by (simp add: ladder_def)
  show ?thesis
  proof (cases "size' m < size' msg")
    case True
    then have "size' m \<le> size' msg" by simp
    then have "unat (size' msg - size' m) = unat (size' msg) - unat (size' m)"
      by (rule unat_sub)
    moreover from True have "min (unat (size' m)) (unat (size' msg)) = unat (size' m)"
      by (simp add: word_less_nat_alt)
    ultimately show ?thesis
      using True assms(4) by (simp add: ap eff rp)
  next
    case False
    have "counts_ok (cancel b m)"
      using co assms(3) assms(4) by (rule counts_ok_cancel)
    then have "refs_registered (cancel b m)"
      by (rule counts_ok_imp)
    moreover have "orders (cancel b m) (order_id m) = None"
      using False by (simp add: eff)
    ultimately have gone: "?p \<notin> set (lev (cancel b m) s q)" for s q
      by (rule unregistered_not_referenced)
    have lst: "map_of (ladder (cancel b m) (side msg)) (price msg) = None"
      if "lev b (side msg) (price msg) = [?p]"
      using that assms(3) False same rp
      by (simp add: cancel_def Let_def lev_def ladder_set_ladder map_of_erase_level assms(4))
    show ?thesis
      using False assms(4) gone lst by (simp add: ap eff rp)
  qed
qed

theorem cancel_same_ladder_witness:
  "consistent (apply_event empty_book 0 add_bid_1) \<and> action cancel_1_bid_part = Action_C \<and>
   orders (apply_event empty_book 0 add_bid_1) (order_id cancel_1_bid_part) = Some (0, add_bid_1) \<and>
   (side cancel_1_bid_part = Side_B) = (side add_bid_1 = Side_B) \<and>
   (if size' cancel_1_bid_part < size' add_bid_1 then
      orders (apply_event (apply_event empty_book 0 add_bid_1) 1 cancel_1_bid_part) =
        (orders (apply_event empty_book 0 add_bid_1))(order_id cancel_1_bid_part \<mapsto>
           (0, add_bid_1\<lparr>size' := size' add_bid_1 - size' cancel_1_bid_part\<rparr>)) \<and>
      unat (size' add_bid_1 - size' cancel_1_bid_part) =
        unat (size' add_bid_1) - min (unat (size' cancel_1_bid_part)) (unat (size' add_bid_1)) \<and>
      lev (apply_event (apply_event empty_book 0 add_bid_1) 1 cancel_1_bid_part)
          (side add_bid_1) (price add_bid_1) =
        removeAll (NodePtr (order_id cancel_1_bid_part) 0)
          (lev (apply_event empty_book 0 add_bid_1) (side add_bid_1) (price add_bid_1))
          @ [NodePtr (order_id cancel_1_bid_part) 0]
    else False)"
proof -
  have h1: "consistent (apply_event empty_book 0 add_bid_1)"
    by (rule consistent_apply_event [OF consistent_empty])
      (simp add: admissible_def add_bid_1_def book_defs)
  have h2: "action cancel_1_bid_part = Action_C"
    by (simp add: cancel_1_bid_part_def mk_event_def)
  have h3: "orders (apply_event empty_book 0 add_bid_1) (order_id cancel_1_bid_part) = Some (0, add_bid_1)"
    by (simp add: cancel_1_bid_part_def add_bid_1_def book_defs)
  have h4: "(side cancel_1_bid_part = Side_B) = (side add_bid_1 = Side_B)"
    by (simp add: cancel_1_bid_part_def add_bid_1_def mk_event_def)
  have lt: "size' cancel_1_bid_part < size' add_bid_1"
    by (simp add: cancel_1_bid_part_def add_bid_1_def mk_event_def)
  from cancel_same_ladder [OF h1 h2 h3 h4, where e = 1]
  show ?thesis
    using h1 h2 h3 h4 lt by (simp only: if_True simp_thms)
qed

text \<open>A Cancel whose order id is not registered leaves the book as it is.\<close>

theorem cancel_unknown_id_unchanged:
  "(case orders b (order_id m) of
      None \<Rightarrow> apply_event b e (m\<lparr>action := Action_C\<rparr>) = b
    | Some gm \<Rightarrow> True)"
  by (simp add: apply_event_def cancel_def split: option.splits)

text \<open>After a Clear event a snapshot has only padding rows on both sides.\<close>

theorem clear_then_snapshot_is_padding:
  "snapshot junk ev (apply_event b e (m\<lparr>action := Action_R\<rparr>)) d =
     replicate d (PriceLevel PRICE_UNDEF 0 0) @ replicate d (PriceLevel PRICE_UNDEF 0 0)"
  by (simp add: apply_event_def clear_def snapshot_def fill_def)

text \<open>Trade, Fill, None and every action character without a case leave the book as it is.\<close>

theorem trade_fill_none_change_nothing:
  "apply_event b e (m\<lparr>action := Action_T\<rparr>) = b \<and>
   apply_event b e (m\<lparr>action := Action_F\<rparr>) = b \<and>
   apply_event b e (m\<lparr>action := Action_N\<rparr>) = b \<and>
   apply_event b e (m\<lparr>action := Action_other c\<rparr>) = b"
  by (simp add: apply_event_def)


text \<open>
  The end-to-end example of the specification: reset, two Adds at 100.5 (sizes 10 and
  5), a Cancel of 3 and a Cancel of 7 units of order 1. The best bid row printed with
  each line.
\<close>

theorem spec_end_to_end_example:
  "map (\<lambda>out. take 1 (snd out))
     (main_loop junk empty_book 0
        [Some reset_ev, Some add_bid_1, Some add_bid_2, Some cancel_1_bid_3, Some cancel_1_bid_rest]) =
     [[PriceLevel PRICE_UNDEF 0 0],
      [PriceLevel 100500000000 10 1],
      [PriceLevel 100500000000 15 2],
      [PriceLevel 100500000000 12 2],
      [PriceLevel 100500000000 5 1]]"
proof -
  let ?b2 = "empty_book\<lparr>orders := [1 \<mapsto> (0, add_bid_1)], allocs := 1,
     node_address := (\<lambda>g. g)(0 := 0), bids := [(100500000000, [NodePtr 1 0])]\<rparr>"
  let ?b3 = "empty_book\<lparr>orders := [1 \<mapsto> (0, add_bid_1), 2 \<mapsto> (1, add_bid_2)], allocs := 2,
     node_address := (\<lambda>g. g)(0 := 0, 1 := 1),
     bids := [(100500000000, [NodePtr 1 0, NodePtr 2 1])]\<rparr>"
  let ?b4 = "empty_book\<lparr>orders := [2 \<mapsto> (1, add_bid_2), 1 \<mapsto> (0, add_bid_1\<lparr>size' := 7\<rparr>)],
     allocs := 2, node_address := (\<lambda>g. g)(0 := 0, 1 := 1),
     bids := [(100500000000, [NodePtr 2 1, NodePtr 1 0])]\<rparr>"
  let ?b5 = "empty_book\<lparr>orders := [2 \<mapsto> (1, add_bid_2)], allocs := 2,
     node_address := (\<lambda>g. g)(0 := 0, 1 := 1), free_store := [0],
     bids := [(100500000000, [NodePtr 2 1])]\<rparr>"
  have s1: "apply_event empty_book 0 reset_ev = empty_book"
    by (simp add: reset_ev_def book_defs)
  have s2: "apply_event empty_book 1 add_bid_1 = ?b2"
    by (simp add: add_bid_1_def book_defs)
  have s3: "apply_event ?b2 2 add_bid_2 = ?b3"
    by (simp add: add_bid_1_def add_bid_2_def book_defs)
  have s4: "apply_event ?b3 3 cancel_1_bid_3 = ?b4"
    by (simp add: add_bid_1_def add_bid_2_def cancel_1_bid_3_def book_defs)
  have s5: "apply_event ?b4 4 cancel_1_bid_rest = ?b5"
    by (simp add: add_bid_1_def add_bid_2_def cancel_1_bid_rest_def book_defs)
  have r1: "take 1 (snapshot jk ev empty_book 10) = [PriceLevel PRICE_UNDEF 0 0]" for jk ev
    by (simp add: book_defs snap_defs)
  have r2: "take 1 (snapshot jk ev ?b2 10) = [PriceLevel 100500000000 10 1]" for jk ev
    by (simp add: add_bid_1_def book_defs snap_defs)
  have r3: "take 1 (snapshot jk ev ?b3 10) = [PriceLevel 100500000000 15 2]" for jk ev
    by (simp add: add_bid_1_def add_bid_2_def book_defs snap_defs)
  have r4: "take 1 (snapshot jk ev ?b4 10) = [PriceLevel 100500000000 12 2]" for jk ev
    by (simp add: add_bid_1_def add_bid_2_def book_defs snap_defs)
  have r5: "take 1 (snapshot jk ev ?b5 10) = [PriceLevel 100500000000 5 1]" for jk ev
    by (simp add: add_bid_1_def add_bid_2_def book_defs snap_defs)
  have n: "Suc 0 = 1" "Suc 1 = 2" "Suc 2 = 3" "Suc 3 = 4" by simp_all
  show ?thesis
    by (simp only: main_loop.simps Let_def s1 s2 s3 s4 s5 n list.map snd_conv r1 r2 r3 r4 r5)
qed

text \<open>
  Add without the flag and with an id that is not registered: the event is stored in a
  new node and the node's address is appended to the level at the event's price in the
  ladder the event's side selects; no other level changes.
\<close>

theorem add_fresh_registers_and_appends:
  assumes "action m = Action_A" and "\<not> is_tob m" and "orders b (order_id m) = None"
  shows "orders (apply_event b e m) = (orders b)(order_id m \<mapsto> (allocs b, m)) \<and>
         (\<forall>s q. lev (apply_event b e m) s q =
            (if (s = Side_B) = (side m = Side_B) \<and> q = price m
             then lev b s q @ [NodePtr (order_id m) (allocs b)] else lev b s q))"
proof -
  have ap: "apply_event b e m = add b e m"
    using assms(1) by (simp add: apply_event_def)
  show ?thesis
    unfolding ap using add_fresh_effect [OF assms(2,3)] by blast
qed

theorem add_fresh_registers_and_appends_witness:
  "action add_bid_1 = Action_A \<and> \<not> is_tob add_bid_1 \<and> orders empty_book (order_id add_bid_1) = None \<and>
   orders (apply_event empty_book 0 add_bid_1) =
     (orders empty_book)(order_id add_bid_1 \<mapsto> (allocs empty_book, add_bid_1))"
proof -
  have h1: "action add_bid_1 = Action_A"
    by (simp add: add_bid_1_def mk_event_def)
  have h2: "\<not> is_tob add_bid_1"
    by (simp add: add_bid_1_def mk_event_def is_tob_def)
  have h3: "orders empty_book (order_id add_bid_1) = None"
    by (simp add: empty_book_def)
  from add_fresh_registers_and_appends [OF h1 h2 h3, where e = 0]
  show ?thesis
    using h1 h2 h3 by blast
qed

text \<open>
  Modify of a registered id. The node is overwritten with the event. In the ladder of
  the side stored before: when the price changes, the reference leaves the level at the
  old price and is appended to the level at the new price; when the price stays and the
  size grows, the reference moves to the end of its level; otherwise no level changes.
  What leaves a level is every member that compares equal to the node's address.
\<close>

theorem modify_known_moves_reference:
  assumes "action m = Action_M" and "orders b (order_id m) = Some (g, msg)"
  shows "orders (apply_event b e m) = (orders b)(order_id m \<mapsto> (g, m)) \<and>
         (\<forall>s q. lev (apply_event b e m) s q =
           (if (s = Side_B) = (side msg = Side_B) then
              (if price msg \<noteq> price m then
                 (if q = price msg then remove_ptr b (NodePtr (order_id m) g) (lev b s q)
                  else if q = price m then lev b s q @ [NodePtr (order_id m) g]
                  else lev b s q)
               else if size' msg < size' m then
                 (if q = price msg
                  then remove_ptr b (NodePtr (order_id m) g) (lev b s q) @ [NodePtr (order_id m) g]
                  else lev b s q)
               else lev b s q)
            else lev b s q))"
proof -
  have ap: "apply_event b e m = modify b e m"
    using assms(1) by (simp add: apply_event_def)
  show ?thesis
    unfolding ap using modify_known_effect [OF assms(2)] by blast
qed

theorem modify_known_moves_reference_witness:
  "action modify_1_bid = Action_M \<and>
   orders (apply_event empty_book 0 add_bid_1) (order_id modify_1_bid) = Some (0, add_bid_1) \<and>
   orders (apply_event (apply_event empty_book 0 add_bid_1) 1 modify_1_bid) =
     (orders (apply_event empty_book 0 add_bid_1))(order_id modify_1_bid \<mapsto> (0, modify_1_bid))"
proof -
  have h1: "action modify_1_bid = Action_M"
    by (simp add: modify_1_bid_def mk_event_def)
  have h2: "orders (apply_event empty_book 0 add_bid_1) (order_id modify_1_bid) = Some (0, add_bid_1)"
    by (simp add: modify_1_bid_def add_bid_1_def book_defs)
  from modify_known_moves_reference [OF h1 h2, where e = 1]
  show ?thesis
    using h1 h2 by blast
qed

text \<open>On the sample book, the Modify to 99.0 moves the only reference to the new level.\<close>

lemma modify_known_eval:
  "bids (apply_event (apply_event empty_book 0 add_bid_1) 1 modify_1_bid) =
     [(99000000000, [NodePtr 1 0])]"
  by (simp add: modify_1_bid_def add_bid_1_def book_defs)

end
